theory Spec2Isabelle
  imports Complex_Main "HOL-Library.Log_Nat"
begin

section \<open>Python and library primitives used by \<open>scannet_data_utils.py\<close>\<close>

text \<open>
  Exceptions are values: every function that can raise returns \<open>py_error + 'a\<close>, with
  \<open>Inl\<close> carrying the exception.
\<close>

datatype py_error =
    FileNotFoundError | FileExistsError | IsADirectoryError | KeyError | IndexError
  | ValueError | OverflowError | AssertionError | UnicodeDecodeError | TypeError

definition ebind :: "py_error + 'a \<Rightarrow> ('a \<Rightarrow> py_error + 'b) \<Rightarrow> py_error + 'b" where
  "ebind m f = (case m of Inl e \<Rightarrow> Inl e | Inr x \<Rightarrow> f x)"

text \<open>A list comprehension whose body can raise: the first failing element, in order, raises.\<close>

fun emap :: "('a \<Rightarrow> py_error + 'b) \<Rightarrow> 'a list \<Rightarrow> py_error + 'b list" where
  "emap f [] = Inr []"
| "emap f (x # xs) =
     (case f x of Inl e \<Rightarrow> Inl e
      | Inr y \<Rightarrow> (case emap f xs of Inl e \<Rightarrow> Inl e | Inr ys \<Rightarrow> Inr (y # ys)))"

subsection \<open>Dictionaries\<close>

text \<open>
  A Python dict keeps insertion order, and iterating it yields the keys in that order, so it
  is an association list: \<open>d[k] = v\<close> replaces the value of an existing key in place and
  appends a new key at the end; \<open>d[k]\<close> raises \<open>KeyError\<close> on a missing key.
\<close>

type_synonym ('k, 'v) dict = "('k \<times> 'v) list"

fun dict_set :: "('k, 'v) dict \<Rightarrow> 'k \<Rightarrow> 'v \<Rightarrow> ('k, 'v) dict" where
  "dict_set [] k v = [(k, v)]"
| "dict_set ((k', v') # d) k v = (if k' = k then (k, v) # d else (k', v') # dict_set d k v)"

fun dict_get :: "('k, 'v) dict \<Rightarrow> 'k \<Rightarrow> py_error + 'v" where
  "dict_get [] k = Inl KeyError"
| "dict_get ((k', v') # d) k = (if k' = k then Inr v' else dict_get d k)"

definition dict_keys :: "('k, 'v) dict \<Rightarrow> 'k list" where
  "dict_keys d = map fst d"

text \<open>\<open>{key(x): value(x) for x in xs}\<close>, where computing an item can raise.\<close>

fun dict_comp :: "('a \<Rightarrow> py_error + ('k \<times> 'v)) \<Rightarrow> 'a list \<Rightarrow> ('k, 'v) dict \<Rightarrow> py_error + ('k, 'v) dict" where
  "dict_comp f [] d = Inr d"
| "dict_comp f (x # xs) d =
     (case f x of Inl e \<Rightarrow> Inl e | Inr (k, v) \<Rightarrow> dict_comp f xs (dict_set d k v))"

text \<open>\<open>xs.index(x)\<close>: the first position of \<open>x\<close>, \<open>ValueError\<close> when absent.\<close>

fun list_index :: "'a list \<Rightarrow> 'a \<Rightarrow> py_error + nat" where
  "list_index [] x = Inl ValueError"
| "list_index (y # ys) x =
     (if y = x then Inr 0 else (case list_index ys x of Inl e \<Rightarrow> Inl e | Inr i \<Rightarrow> Inr (Suc i)))"

text \<open>\<open>enumerate(xs)\<close>, counting from \<open>i\<close>.\<close>

fun enumerate_from :: "nat \<Rightarrow> 'a list \<Rightarrow> (nat \<times> 'a) list" where
  "enumerate_from i [] = []"
| "enumerate_from i (x # xs) = (i, x) # enumerate_from (Suc i) xs"

subsection \<open>Strings and paths\<close>

definition startswith :: "string \<Rightarrow> string \<Rightarrow> bool" where
  "startswith s p = (take (length p) s = p)"

definition endswith :: "string \<Rightarrow> string \<Rightarrow> bool" where
  "endswith s p = (length p \<le> length s \<and> drop (length s - length p) s = p)"

text \<open>
  \<open>posixpath.join(a, *p)\<close>: an absolute component restarts the path, otherwise components
  are appended with one separator.
\<close>

definition join_step :: "string \<Rightarrow> string \<Rightarrow> string" where
  "join_step b path =
     (if startswith b ''/'' then b
      else if path = [] \<or> endswith path ''/'' then path @ b
      else path @ ''/'' @ b)"

definition osp_join :: "string \<Rightarrow> string list \<Rightarrow> string" where
  "osp_join a p = fold join_step p a"

text \<open>
  \<open>posixpath.dirname\<close>: the part up to the last separator, with trailing separators
  removed unless it consists of separators only.
\<close>

fun rstrip_sep :: "string \<Rightarrow> string" where
  "rstrip_sep s = rev (dropWhile (\<lambda>c. c = CHR ''/'') (rev s))"

definition osp_dirname :: "string \<Rightarrow> string" where
  "osp_dirname p =
     (let hd_part = rev (dropWhile (\<lambda>c. c \<noteq> CHR ''/'') (rev p))
      in if hd_part \<noteq> [] \<and> \<not> list_all (\<lambda>c. c = CHR ''/'') hd_part then rstrip_sep hd_part
         else hd_part)"

subsection \<open>Arrays\<close>

text \<open>
  The arrays of the dataset are one- or two-dimensional, of an integer or a floating dtype.
  A two-dimensional array is the list of its rows. Integer elements are unbounded here
  (no value of the dataset comes near the 64-bit limits); floating elements are the
  rationals they denote (every finite binary float is one).
\<close>

datatype ndarray =
    IntVec "int list" | IntMat "int list list" | FloatVec "rat list" | FloatMat "rat list list"

text \<open>\<open>a.shape[0]\<close>\<close>

fun shape0 :: "ndarray \<Rightarrow> nat" where
  "shape0 (IntVec xs) = length xs"
| "shape0 (IntMat rs) = length rs"
| "shape0 (FloatVec xs) = length xs"
| "shape0 (FloatMat rs) = length rs"

text \<open>Conversion of a float to an integer type truncates towards zero.\<close>

definition trunc :: "rat \<Rightarrow> int" where
  "trunc x = (if 0 \<le> x then \<lfloor>x\<rfloor> else \<lceil>x\<rceil>)"

text \<open>\<open>a.astype(np.long)\<close>\<close>

fun astype_long :: "ndarray \<Rightarrow> ndarray" where
  "astype_long (IntVec xs) = IntVec xs"
| "astype_long (IntMat rs) = IntMat rs"
| "astype_long (FloatVec xs) = IntVec (map trunc xs)"
| "astype_long (FloatMat rs) = IntMat (map (map trunc) rs)"

text \<open>
  Python slices of a row: \<open>r[:-1]\<close>, \<open>r[:n]\<close> and \<open>r[a:b]\<close> (for \<open>a \<le> b\<close>); a slice
  never raises, it is cut at the row's end.
\<close>

definition slice_to_last :: "'a list \<Rightarrow> 'a list" where
  "slice_to_last r = take (length r - 1) r"

definition slice_range :: "nat \<Rightarrow> nat \<Rightarrow> 'a list \<Rightarrow> 'a list" where
  "slice_range a b r = take (b - a) (drop a r)"

text \<open>
  \<open>m[:, s]\<close> for a slice \<open>s\<close>: a one-dimensional array has no second axis
  (\<open>IndexError: too many indices\<close>).
\<close>

fun cols :: "(int list \<Rightarrow> int list) \<Rightarrow> (rat list \<Rightarrow> rat list) \<Rightarrow> ndarray \<Rightarrow> py_error + ndarray" where
  "cols f g (IntMat rs) = Inr (IntMat (map f rs))"
| "cols f g (FloatMat rs) = Inr (FloatMat (map g rs))"
| "cols f g (IntVec xs) = Inl IndexError"
| "cols f g (FloatVec xs) = Inl IndexError"

text \<open>\<open>m[:, -1]\<close>: the last column; an array with no column has no index \<open>-1\<close>.\<close>

fun last_col :: "ndarray \<Rightarrow> py_error + ndarray" where
  "last_col (IntMat rs) = (if list_ex (\<lambda>r. r = []) rs then Inl IndexError else Inr (IntVec (map last rs)))"
| "last_col (FloatMat rs) = (if list_ex (\<lambda>r. r = []) rs then Inl IndexError else Inr (FloatVec (map last rs)))"
| "last_col (IntVec xs) = Inl IndexError"
| "last_col (FloatVec xs) = Inl IndexError"

text \<open>
  The elements of a one-dimensional array as numbers. A numpy scalar used as a dict key
  hashes and compares by its numeric value, so a float \<open>3.0\<close> finds the integer key \<open>3\<close>.
\<close>

fun items :: "ndarray \<Rightarrow> rat list" where
  "items (IntVec xs) = map of_int xs"
| "items (FloatVec xs) = xs"
| "items (IntMat rs) = []"
| "items (FloatMat rs) = []"

fun dict_get_num :: "(int, 'v) dict \<Rightarrow> rat \<Rightarrow> py_error + 'v" where
  "dict_get_num [] x = Inl KeyError"
| "dict_get_num ((k, v) # d) x = (if of_int k = x then Inr v else dict_get_num d x)"

subsection \<open>Info records\<close>

record pc_info =
  num_features :: int
  lidar_idx :: string

text \<open>
  The annotation block is a dict whose keys depend on the scene, so it stays a dict; its
  values are the count, arrays, and the array of names.
\<close>

datatype anno_val = ACount nat | AArr ndarray | ANames "string list"

record info =
  point_cloud :: pc_info
  pts_path :: string
  pts_instance_mask_path :: string
  pts_semantic_mask_path :: string
  annos :: "(string, anno_val) dict option"

subsection \<open>The file system\<close>

text \<open>
  A file is described by the format it was written in and the data it holds: a \<open>.npy\<close>
  file of an array, the flat binary dump of an array's elements (\<open>ndarray.tofile\<close>), or a
  text file of lines, or a pickled list of info records. Reading a file in its own format
  gives its data back. What the libraries make of a file of another format depends on its
  bytes, which are not modelled: those results are the parameters \<open>ext\<close>.
\<close>

datatype stored = Npy ndarray | Bin ndarray | Text "string list" | Pkl "info list"

record ext =
  npy_view :: "stored \<Rightarrow> py_error + ndarray"
  long_view :: "stored \<Rightarrow> int list"
  lines_view :: "stored \<Rightarrow> py_error + string list"
  infos_view :: "stored \<Rightarrow> py_error + info list"

record fs =
  files :: "string \<rightharpoonup> stored"
  dirs :: "string set"

text \<open>An action on the file system: its result or exception, and the file system after it.\<close>

type_synonym 'a io = "fs \<Rightarrow> (py_error + 'a) \<times> fs"

definition io_bind :: "'a io \<Rightarrow> ('a \<Rightarrow> 'b io) \<Rightarrow> 'b io" where
  "io_bind m f = (\<lambda>s. case m s of (Inl e, s') \<Rightarrow> (Inl e, s') | (Inr x, s') \<Rightarrow> f x s')"

definition io_return :: "'a \<Rightarrow> 'a io" where
  "io_return x = (\<lambda>s. (Inr x, s))"

definition io_read :: "(fs \<Rightarrow> py_error + 'a) \<Rightarrow> 'a io" where
  "io_read r = (\<lambda>s. (r s, s))"

fun io_seq :: "unit io list \<Rightarrow> unit io" where
  "io_seq [] = io_return ()"
| "io_seq (m # ms) = io_bind m (\<lambda>_. io_seq ms)"

text \<open>\<open>np.load(path)\<close>\<close>

definition np_load :: "ext \<Rightarrow> string \<Rightarrow> fs \<Rightarrow> py_error + ndarray" where
  "np_load x path s =
     (case files s path of
        None \<Rightarrow> Inl FileNotFoundError
      | Some (Npy a) \<Rightarrow> Inr a
      | Some f \<Rightarrow> npy_view x f)"

text \<open>
  \<open>np.fromfile(path, dtype=np.long)\<close>: the elements of a flat dump of an integer array, in
  row-major order.
\<close>

definition np_fromfile_long :: "ext \<Rightarrow> string \<Rightarrow> fs \<Rightarrow> py_error + ndarray" where
  "np_fromfile_long x path s =
     (case files s path of
        None \<Rightarrow> Inl FileNotFoundError
      | Some (Bin (IntVec xs)) \<Rightarrow> Inr (IntVec xs)
      | Some (Bin (IntMat rs)) \<Rightarrow> Inr (IntVec (concat rs))
      | Some f \<Rightarrow> Inr (IntVec (long_view x f)))"

text \<open>\<open>a.tofile(path)\<close>: the directory of the file must exist.\<close>

definition tofile :: "ndarray \<Rightarrow> string \<Rightarrow> unit io" where
  "tofile a path s =
     (if path \<in> dirs s then (Inl IsADirectoryError, s)
      else if osp_dirname path \<noteq> [] \<and> osp_dirname path \<notin> dirs s then (Inl FileNotFoundError, s)
      else (Inr (), s\<lparr>files := (files s)(path \<mapsto> Bin a)\<rparr>))"

text \<open>\<open>mmcv.mkdir_or_exist(dir_name)\<close>: \<open>os.makedirs(dir_name, exist_ok=True)\<close>.\<close>

definition mkdir_or_exist :: "string \<Rightarrow> unit io" where
  "mkdir_or_exist d s =
     (if d = [] then (Inr (), s)
      else if files s d \<noteq> None then (Inl FileExistsError, s)
      else (Inr (), s\<lparr>dirs := insert d (dirs s)\<rparr>))"

text \<open>\<open>mmcv.check_file_exist(filename)\<close>\<close>

definition check_file_exist :: "string \<Rightarrow> fs \<Rightarrow> py_error + unit" where
  "check_file_exist path s = (if files s path = None then Inl FileNotFoundError else Inr ())"

text \<open>\<open>mmcv.list_from_file(filename)\<close>\<close>

definition list_from_file :: "ext \<Rightarrow> string \<Rightarrow> fs \<Rightarrow> py_error + string list" where
  "list_from_file x path s =
     (case files s path of
        None \<Rightarrow> Inl FileNotFoundError
      | Some (Text ls) \<Rightarrow> Inr ls
      | Some f \<Rightarrow> lines_view x f)"

text \<open>
  \<open>mmcv.load(file)\<close>: the format is the part of the name after its last dot, and a
  format without a handler is refused before the file is opened.
\<close>

definition mmcv_load :: "ext \<Rightarrow> string \<Rightarrow> fs \<Rightarrow> py_error + info list" where
  "mmcv_load x path s =
     (let file_format = rev (takeWhile (\<lambda>c. c \<noteq> CHR ''.'') (rev path))
      in if file_format \<notin> set [''json'', ''yaml'', ''yml'', ''pickle'', ''pkl'']
         then Inl TypeError
         else (case files s path of
                 None \<Rightarrow> Inl FileNotFoundError
               | Some (Pkl infos) \<Rightarrow> Inr infos
               | Some f \<Rightarrow> infos_view x f))"

section \<open>\<open>ScanNetData\<close>\<close>

record ScanNetData =
  root_dir :: string
  split :: string
  split_dir :: string
  classes :: "string list"
  cat2label :: "(string, nat) dict"
  label2cat :: "(nat, string) dict"
  cat_ids :: "int list"
  cat_ids2class :: "(int, nat) dict"
  sample_id_list :: "string list"

definition det_classes :: "string list" where
  "det_classes =
     [''cabinet'', ''bed'', ''chair'', ''sofa'', ''table'', ''door'', ''window'',
      ''bookshelf'', ''picture'', ''counter'', ''desk'', ''curtain'',
      ''refrigerator'', ''showercurtrain'', ''toilet'', ''sink'', ''bathtub'',
      ''garbagebin'']"

definition det_cat_ids :: "int list" where
  "det_cat_ids = [3, 4, 5, 6, 7, 8, 9, 10, 11, 12, 14, 16, 24, 28, 33, 34, 36, 39]"

text \<open>
  \<open>ScanNetData.__init__(root_path, split)\<close>: the four tables, the check of the split name,
  and the split file.
\<close>

definition ScanNetData_init :: "ext \<Rightarrow> string \<Rightarrow> string \<Rightarrow> fs \<Rightarrow> py_error + ScanNetData" where
  "ScanNetData_init x root_path split_name s =
     ebind (dict_comp (\<lambda>cat. ebind (list_index det_classes cat) (\<lambda>i. Inr (cat, i))) det_classes [])
       (\<lambda>c2l.
     ebind (dict_comp (\<lambda>t. ebind (dict_get c2l t) (\<lambda>l. Inr (l, t))) (dict_keys c2l) [])
       (\<lambda>l2c.
     ebind (dict_comp (\<lambda>(i, nyu40id). Inr (nyu40id, i)) (enumerate_from 0 det_cat_ids) [])
       (\<lambda>ids2class.
     if split_name \<notin> set [''train'', ''val'', ''test''] then Inl AssertionError
     else
       let split_file = osp_join root_path [''meta_data'', ''scannetv2_'' @ split_name @ ''.txt'']
       in ebind (check_file_exist split_file s) (\<lambda>_.
          ebind (list_from_file x split_file s) (\<lambda>ids.
            Inr \<lparr>root_dir = root_path, split = split_name, split_dir = osp_join root_path [],
                 classes = det_classes, cat2label = c2l, label2cat = l2c,
                 cat_ids = det_cat_ids, cat_ids2class = ids2class,
                 sample_id_list = ids\<rparr>)))))"

text \<open>\<open>get_box_label(idx)\<close>\<close>

definition get_box_label :: "ext \<Rightarrow> ScanNetData \<Rightarrow> string \<Rightarrow> fs \<Rightarrow> py_error + ndarray" where
  "get_box_label x self idx s =
     (let box_file = osp_join (root_dir self) [''scannet_train_instance_data'', idx @ ''_bbox.npy'']
      in ebind (check_file_exist box_file s) (\<lambda>_. np_load x box_file s))"

subsection \<open>\<open>get_infos\<close>\<close>

text \<open>
  \<open>process_single_scene\<close>, lines 66 to 99: load the three raw arrays, make the three output
  directories, write the three flat files, and fill the record's fixed fields. The
  \<open>print\<close> is not modelled.
\<close>

definition write_scene_files :: "ext \<Rightarrow> ScanNetData \<Rightarrow> string \<Rightarrow> info io" where
  "write_scene_files x self sample_idx =
     (let pc = \<lparr>num_features = 6, lidar_idx = sample_idx\<rparr>;
          root = root_dir self;
          pts_filename = osp_join root [''scannet_train_instance_data'', sample_idx @ ''_vert.npy''];
          ins_filename = osp_join root [''scannet_train_instance_data'', sample_idx @ ''_ins_label.npy''];
          sem_filename = osp_join root [''scannet_train_instance_data'', sample_idx @ ''_sem_label.npy'']
      in io_bind (io_read (np_load x pts_filename)) (\<lambda>points.
         io_bind (io_read (np_load x ins_filename)) (\<lambda>ins.
         io_bind (io_read (np_load x sem_filename)) (\<lambda>sem.
         io_bind (io_seq
           [mkdir_or_exist (osp_join root [''points'']),
            mkdir_or_exist (osp_join root [''instance_mask'']),
            mkdir_or_exist (osp_join root [''semantic_mask'']),
            tofile points (osp_join root [''points'', sample_idx @ ''.bin'']),
            tofile (astype_long ins) (osp_join root [''instance_mask'', sample_idx @ ''.bin'']),
            tofile (astype_long sem) (osp_join root [''semantic_mask'', sample_idx @ ''.bin''])])
           (\<lambda>_.
         io_return
           \<lparr>point_cloud = pc,
            pts_path = osp_join ''points'' [sample_idx @ ''.bin''],
            pts_instance_mask_path = osp_join ''instance_mask'' [sample_idx @ ''.bin''],
            pts_semantic_mask_path = osp_join ''semantic_mask'' [sample_idx @ ''.bin''],
            annos = None\<rparr>)))))"

text \<open>
  Lines 107 to 121, for a box array with \<open>gt_num \<noteq> 0\<close> rows: the two list comprehensions
  look every class id up and raise \<open>KeyError\<close> at the first id that is not in the table.
\<close>

definition box_annotations ::
  "ScanNetData \<Rightarrow> ndarray \<Rightarrow> (string, anno_val) dict \<Rightarrow> py_error + (string, anno_val) dict" where
  "box_annotations self boxes_with_classes annotations =
     (let gt_num = shape0 boxes_with_classes
      in ebind (cols slice_to_last slice_to_last boxes_with_classes) (\<lambda>minmax_boxes3d.
         ebind (last_col boxes_with_classes) (\<lambda>cls.
         ebind (emap (\<lambda>i. ebind (dict_get_num (cat_ids2class self) (items cls ! i))
                              (dict_get (label2cat self))) [0..<gt_num]) (\<lambda>names.
         let a1 = dict_set annotations ''name'' (ANames names)
         in ebind (cols (slice_range 0 3) (slice_range 0 3) minmax_boxes3d) (\<lambda>location.
         let a2 = dict_set a1 ''location'' (AArr location)
         in ebind (cols (slice_range 3 6) (slice_range 3 6) minmax_boxes3d) (\<lambda>dimensions.
         let a3 = dict_set a2 ''dimensions'' (AArr dimensions);
             a4 = dict_set a3 ''gt_boxes_upright_depth'' (AArr minmax_boxes3d);
             a5 = dict_set a4 ''index'' (AArr (IntVec (map int [0..<gt_num])))
         in ebind (emap (\<lambda>i. dict_get_num (cat_ids2class self) (items cls ! i)) [0..<gt_num])
              (\<lambda>class_ids.
         Inr (dict_set a5 ''class'' (AArr (IntVec (map int class_ids)))))))))))"

text \<open>Lines 102 to 121: the annotation block of a scene.\<close>

definition load_annotations ::
  "ext \<Rightarrow> ScanNetData \<Rightarrow> string \<Rightarrow> fs \<Rightarrow> py_error + (string, anno_val) dict" where
  "load_annotations x self sample_idx s =
     ebind (get_box_label x self sample_idx s) (\<lambda>boxes_with_classes.
       let annotations = dict_set [] ''gt_num'' (ACount (shape0 boxes_with_classes))
       in if shape0 boxes_with_classes \<noteq> 0
          then box_annotations self boxes_with_classes annotations
          else Inr annotations)"

definition process_single_scene :: "ext \<Rightarrow> ScanNetData \<Rightarrow> bool \<Rightarrow> string \<Rightarrow> info io" where
  "process_single_scene x self has_label sample_idx =
     io_bind (write_scene_files x self sample_idx) (\<lambda>info0.
       if has_label
       then io_bind (io_read (load_annotations x self sample_idx)) (\<lambda>annotations.
              io_return (info0\<lparr>annos := Some annotations\<rparr>))
       else io_return info0)"

text \<open>
  \<open>executor.map\<close> runs the function on every id, also after one of them has raised, and
  keeps the outcomes in the order of the ids; \<open>list(infos)\<close> then raises the first
  exception in that order, or returns all records. The scenes are run here one after the
  other in the order of the list. A scene reads files named \<open>..._vert.npy\<close>,
  \<open>..._ins_label.npy\<close>, \<open>..._sem_label.npy\<close> and \<open>..._bbox.npy\<close> and writes files named
  \<open>....bin\<close>, so no scene reads what another one writes.
\<close>

fun executor_map :: "('a \<Rightarrow> 'b io) \<Rightarrow> 'a list \<Rightarrow> fs \<Rightarrow> (py_error + 'b) list \<times> fs" where
  "executor_map f [] s = ([], s)"
| "executor_map f (a # as) s =
     (case f a s of (r, s1) \<Rightarrow> (case executor_map f as s1 of (rs, s2) \<Rightarrow> (r # rs, s2)))"

fun list_of_results :: "(py_error + 'b) list \<Rightarrow> py_error + 'b list" where
  "list_of_results [] = Inr []"
| "list_of_results (Inl e # rs) = Inl e"
| "list_of_results (Inr v # rs) =
     (case list_of_results rs of Inl e \<Rightarrow> Inl e | Inr vs \<Rightarrow> Inr (v # vs))"

definition get_infos ::
  "ext \<Rightarrow> ScanNetData \<Rightarrow> int \<Rightarrow> bool \<Rightarrow> string list option \<Rightarrow> info list io" where
  "get_infos x self num_workers has_label ids s =
     (let id_list = (case ids of Some l \<Rightarrow> l | None \<Rightarrow> sample_id_list self)
      in if num_workers \<le> 0 then (Inl ValueError, s)
         else (case executor_map (process_single_scene x self has_label) id_list s of
                 (rs, s') \<Rightarrow> (list_of_results rs, s')))"

section \<open>Floating point\<close>

text \<open>
  A \<open>float64\<close> is a finite value, an infinity or not-a-number. A finite value is the
  rational it denotes; the sign of zero is not kept (every zero divisor below is a
  converted non-negative integer, so \<open>+0.0\<close>). An operation rounds the exact result to the
  nearest value with 53 significant bits, ties to even, with the exponent range of
  binary64: gradual underflow below \<open>2\<^sup>-\<^sup>1\<^sup>0\<^sup>2\<^sup>2\<close>, and overflow to infinity when the rounded
  value has an exponent of 1024 or more.
\<close>

datatype f64 = Fin rat | PInf | NInf | NaN

text \<open>
  The exponent \<open>e\<close> of a positive rational, \<open>2\<^sup>e \<le> x < 2\<^sup>e\<^sup>+\<^sup>1\<close>, from the bit lengths of
  its numerator and denominator.
\<close>

definition ilog2 :: "rat \<Rightarrow> int" where
  "ilog2 x =
     (case quotient_of x of (p, q) \<Rightarrow>
        let d = bitlen p - bitlen q
        in if 2 powi d \<le> x then d else d - 1)"

text \<open>Rounding to the nearest integer, ties to the even one.\<close>

definition round_half_even :: "rat \<Rightarrow> int" where
  "round_half_even x =
     (let f = \<lfloor>x\<rfloor>; d = x - of_int f
      in if d < 1 / 2 then f
         else if 1 / 2 < d then f + 1
         else if even f then f else f + 1)"

definition fl64 :: "rat \<Rightarrow> rat" where
  "fl64 x =
     (if x = 0 then 0
      else let e = max (ilog2 \<bar>x\<bar>) (- 1022); u = 2 powi (e - 52)
           in of_int (round_half_even (x / u)) * u)"

definition round_f64 :: "rat \<Rightarrow> f64" where
  "round_f64 x =
     (let y = fl64 x
      in if y \<noteq> 0 \<and> 1024 \<le> ilog2 \<bar>y\<bar> then (if 0 < x then PInf else NInf) else Fin y)"

text \<open>Conversion of an integer by numpy, and by Python's \<open>float()\<close>, which refuses to overflow.\<close>

definition f64_of_int :: "int \<Rightarrow> f64" where
  "f64_of_int n = round_f64 (of_int n)"

definition py_float :: "int \<Rightarrow> py_error + f64" where
  "py_float n = (case f64_of_int n of Fin y \<Rightarrow> Inr (Fin y) | _ \<Rightarrow> Inl OverflowError)"

text \<open>
  numpy's division, multiplication and addition: a division by zero gives an infinity or
  not-a-number (with a warning), not an exception.
\<close>

fun f64_div :: "f64 \<Rightarrow> f64 \<Rightarrow> f64" where
  "f64_div NaN _ = NaN"
| "f64_div _ NaN = NaN"
| "f64_div (Fin a) (Fin b) =
     (if b = 0 then (if a = 0 then NaN else if 0 < a then PInf else NInf)
      else round_f64 (a / b))"
| "f64_div (Fin a) PInf = Fin 0"
| "f64_div (Fin a) NInf = Fin 0"
| "f64_div PInf (Fin b) = (if 0 \<le> b then PInf else NInf)"
| "f64_div NInf (Fin b) = (if 0 \<le> b then NInf else PInf)"
| "f64_div PInf PInf = NaN"
| "f64_div PInf NInf = NaN"
| "f64_div NInf PInf = NaN"
| "f64_div NInf NInf = NaN"

fun f64_mul :: "f64 \<Rightarrow> f64 \<Rightarrow> f64" where
  "f64_mul NaN _ = NaN"
| "f64_mul _ NaN = NaN"
| "f64_mul (Fin a) (Fin b) = round_f64 (a * b)"
| "f64_mul (Fin a) PInf = (if a = 0 then NaN else if 0 < a then PInf else NInf)"
| "f64_mul (Fin a) NInf = (if a = 0 then NaN else if 0 < a then NInf else PInf)"
| "f64_mul PInf (Fin b) = (if b = 0 then NaN else if 0 < b then PInf else NInf)"
| "f64_mul NInf (Fin b) = (if b = 0 then NaN else if 0 < b then NInf else PInf)"
| "f64_mul PInf PInf = PInf"
| "f64_mul PInf NInf = NInf"
| "f64_mul NInf PInf = NInf"
| "f64_mul NInf NInf = PInf"

fun f64_add :: "f64 \<Rightarrow> f64 \<Rightarrow> f64" where
  "f64_add NaN _ = NaN"
| "f64_add _ NaN = NaN"
| "f64_add (Fin a) (Fin b) = round_f64 (a + b)"
| "f64_add (Fin a) PInf = PInf"
| "f64_add (Fin a) NInf = NInf"
| "f64_add PInf (Fin b) = PInf"
| "f64_add NInf (Fin b) = NInf"
| "f64_add PInf PInf = PInf"
| "f64_add PInf NInf = NaN"
| "f64_add NInf PInf = NaN"
| "f64_add NInf NInf = NInf"

text \<open>\<open>int(x)\<close> and \<open>round(x)\<close> of a float: both raise on an infinity or not-a-number.\<close>

fun py_int :: "f64 \<Rightarrow> py_error + int" where
  "py_int (Fin x) = Inr (trunc x)"
| "py_int NaN = Inl ValueError"
| "py_int PInf = Inl OverflowError"
| "py_int NInf = Inl OverflowError"

fun py_round :: "f64 \<Rightarrow> py_error + int" where
  "py_round (Fin x) = Inr (round_half_even x)"
| "py_round NaN = Inl ValueError"
| "py_round PInf = Inl OverflowError"
| "py_round NInf = Inl OverflowError"

text \<open>\<open>astype(np.int32)\<close> of an integer keeps the low 32 bits, read as signed.\<close>

definition astype_int32 :: "int \<Rightarrow> int" where
  "astype_int32 v = (v + 2 ^ 31) mod 2 ^ 32 - 2 ^ 31"

text \<open>
  The \<open>float32\<close> arithmetic of the label weights (the cast of a count, numpy's sum of an
  array, the division, and the three operations of the default weighting function) is not
  computed here: its values are of a type \<open>'f\<close> and its operations are parameters.
\<close>

record 'f f32_ops =
  f32_of_f64 :: "f64 \<Rightarrow> 'f"
  f32_astype :: "'f \<Rightarrow> 'f"
  f32_sum :: "'f list \<Rightarrow> 'f"
  f32_div :: "'f \<Rightarrow> 'f \<Rightarrow> 'f"
  f32_add_py :: "f64 \<Rightarrow> 'f \<Rightarrow> 'f"
  f32_log :: "'f \<Rightarrow> 'f"
  f32_rdiv_py :: "f64 \<Rightarrow> 'f \<Rightarrow> 'f"

section \<open>\<open>ScanNetSegData\<close>\<close>

record 'f ScanNetSegData =
  data_root :: string
  data_infos :: "info list"
  seg_split :: string
  num_points :: int
  all_ids :: "int list"
  seg_cat_ids :: "int list"
  ignore_index :: nat
  cat_id2class :: "int list"
  label_weight_func :: "'f list \<Rightarrow> 'f list"

definition seg_cat_id_table :: "int list" where
  "seg_cat_id_table = [1, 2, 3, 4, 5, 6, 7, 8, 9, 10, 11, 12, 14, 16, 24, 28, 33, 34, 36, 39]"

text \<open>
  Reading and writing one element of a one-dimensional array of length \<open>n\<close>: an index from
  \<open>-n\<close> to \<open>-1\<close> counts from the end, any index outside \<open>-n .. n - 1\<close> raises \<open>IndexError\<close>.
\<close>

definition np_getitem :: "'a list \<Rightarrow> int \<Rightarrow> py_error + 'a" where
  "np_getitem a k =
     (let n = int (length a)
      in if - n \<le> k \<and> k < n then Inr (a ! nat (if k < 0 then k + n else k))
         else Inl IndexError)"

definition np_setitem :: "'a list \<Rightarrow> int \<Rightarrow> 'a \<Rightarrow> py_error + 'a list" where
  "np_setitem a k v =
     (let n = int (length a)
      in if - n \<le> k \<and> k < n then Inr (a[nat (if k < 0 then k + n else k) := v])
         else Inl IndexError)"

text \<open>The loop \<open>for i, cat_id in enumerate(self.cat_ids): self.cat_id2class[cat_id] = i\<close>.\<close>

fun fill_cat_id2class :: "(nat \<times> int) list \<Rightarrow> int list \<Rightarrow> py_error + int list" where
  "fill_cat_id2class [] a = Inr a"
| "fill_cat_id2class ((i, cat_id) # rest) a =
     (case np_setitem a cat_id (int i) of Inl e \<Rightarrow> Inl e | Inr a' \<Rightarrow> fill_cat_id2class rest a')"

text \<open>The default \<open>lambda x: 1.0 / np.log(1.2 + x)\<close>, which numpy applies to each element.\<close>

definition default_label_weight_func :: "'f f32_ops \<Rightarrow> 'f list \<Rightarrow> 'f list" where
  "default_label_weight_func ops v =
     map (\<lambda>e. f32_rdiv_py ops (round_f64 1) (f32_log ops (f32_add_py ops (round_f64 (6 / 5)) e))) v"

text \<open>\<open>ScanNetSegData.__init__(data_root, ann_file, split, num_points, label_weight_func)\<close>\<close>

definition ScanNetSegData_init ::
  "'f f32_ops \<Rightarrow> ext \<Rightarrow> string \<Rightarrow> string \<Rightarrow> string \<Rightarrow> int \<Rightarrow> ('f list \<Rightarrow> 'f list) option \<Rightarrow> fs
     \<Rightarrow> py_error + 'f ScanNetSegData" where
  "ScanNetSegData_init ops x root_path ann_file split_name n_points weight_func s =
     ebind (mmcv_load x ann_file s) (\<lambda>infos.
       let ids = map int [0..<41];
           table = seg_cat_id_table;
           ignore = length table
       in ebind (fill_cat_id2class (enumerate_from 0 table) (map (\<lambda>_. 1 * int ignore) ids))
            (\<lambda>id2class.
          Inr \<lparr>data_root = root_path, data_infos = infos, seg_split = split_name,
               num_points = n_points, all_ids = ids, seg_cat_ids = table,
               ignore_index = ignore, cat_id2class = id2class,
               label_weight_func =
                 (case weight_func of None \<Rightarrow> default_label_weight_func ops | Some f \<Rightarrow> f)\<rparr>))"

subsection \<open>\<open>_convert_to_label\<close>\<close>

text \<open>The argument is a file name or an array already loaded.\<close>

datatype mask_arg = MaskPath string | MaskArr ndarray

text \<open>\<open>mask[mask != 0]\<close>: the non-zero elements, as a one-dimensional array.\<close>

fun nonzero_elems :: "ndarray \<Rightarrow> ndarray" where
  "nonzero_elems (IntVec xs) = IntVec (filter (\<lambda>v. v \<noteq> 0) xs)"
| "nonzero_elems (IntMat rs) = IntVec (filter (\<lambda>v. v \<noteq> 0) (concat rs))"
| "nonzero_elems (FloatVec xs) = FloatVec (filter (\<lambda>v. v \<noteq> 0) xs)"
| "nonzero_elems (FloatMat rs) = FloatVec (filter (\<lambda>v. v \<noteq> 0) (concat rs))"

text \<open>
  \<open>a[mask]\<close> with an index array: every index is read as by \<open>np_getitem\<close>; an index array
  of a floating dtype is refused.
\<close>

fun take_indices :: "int list \<Rightarrow> ndarray \<Rightarrow> py_error + int list" where
  "take_indices a (IntVec ks) = emap (np_getitem a) ks"
| "take_indices a (IntMat rs) = emap (np_getitem a) (concat rs)"
| "take_indices a (FloatVec xs) = Inl IndexError"
| "take_indices a (FloatMat rs) = Inl IndexError"

definition convert_to_label ::
  "ext \<Rightarrow> 'f ScanNetSegData \<Rightarrow> mask_arg \<Rightarrow> fs \<Rightarrow> py_error + int list" where
  "convert_to_label x self mask_arg s =
     ebind (case mask_arg of
              MaskPath path \<Rightarrow>
                if endswith path ''npy'' then np_load x path s else np_fromfile_long x path s
            | MaskArr a \<Rightarrow> Inr a)
       (\<lambda>m. take_indices (cat_id2class self) (nonzero_elems m))"

subsection \<open>\<open>get_scene_idxs_and_label_weight\<close>\<close>

text \<open>
  \<open>np.histogram(a, bins)\<close> for integer data and a list of bin edges: bin \<open>j\<close> counts the
  elements from edge \<open>j\<close> up to, but not including, edge \<open>j + 1\<close>; the last bin includes
  its right edge.
\<close>

definition np_histogram :: "int list \<Rightarrow> int list \<Rightarrow> int list" where
  "np_histogram a edges =
     map (\<lambda>j. int (length (filter
                (\<lambda>v. edges ! j \<le> v \<and>
                     (if j + 2 = length edges then v \<le> edges ! (j + 1) else v < edges ! (j + 1)))
                a)))
         [0..<length edges - 1]"

text \<open>
  The loop over the info records (lines 207 to 212), started with the empty list of point
  counts and the zero histogram.
\<close>

fun scan_scenes ::
  "ext \<Rightarrow> 'f ScanNetSegData \<Rightarrow> fs \<Rightarrow> info list \<Rightarrow> nat list \<times> f64 list \<Rightarrow> py_error + nat list \<times> f64 list" where
  "scan_scenes x self s [] acc = Inr acc"
| "scan_scenes x self s (data_info # rest) (num_point_all, label_weight) =
     (case convert_to_label x self
             (MaskPath (osp_join (data_root self) [pts_semantic_mask_path data_info])) s of
        Inl e \<Rightarrow> Inl e
      | Inr label \<Rightarrow>
          let num_classes = length (seg_cat_ids self);
              class_count = np_histogram label (map int [0..<num_classes + 2])
          in scan_scenes x self s rest
               (num_point_all @ [length label],
                map (\<lambda>(w, c). f64_add w (f64_of_int c)) (zip label_weight class_count)))"

text \<open>The loop of lines 218 and 219.\<close>

fun extend_scene_idxs :: "f64 list \<Rightarrow> int \<Rightarrow> nat list \<Rightarrow> int list \<Rightarrow> py_error + int list" where
  "extend_scene_idxs sample_prob num_iter [] scene_idxs = Inr scene_idxs"
| "extend_scene_idxs sample_prob num_iter (idx # rest) scene_idxs =
     (case py_round (f64_mul (sample_prob ! idx) (f64_of_int num_iter)) of
        Inl e \<Rightarrow> Inl e
      | Inr k \<Rightarrow>
          extend_scene_idxs sample_prob num_iter rest (scene_idxs @ replicate (nat k) (int idx)))"

text \<open>
  Lines 215 to 220, from the point counts of the scenes: the sampling probabilities, the
  number of iterations and the resampled scene indices. The sum of the counts is unbounded
  here (numpy's is a 64-bit integer).
\<close>

definition get_num_iter :: "nat list \<Rightarrow> int \<Rightarrow> py_error + int" where
  "get_num_iter num_point_all n_points =
     ebind (py_float n_points) (\<lambda>d.
       py_int (f64_div (f64_of_int (int (sum_list num_point_all))) d))"

definition resample_scene_idxs :: "nat list \<Rightarrow> int \<Rightarrow> nat \<Rightarrow> py_error + int list" where
  "resample_scene_idxs num_point_all n_points n_infos =
     (let total = f64_of_int (int (sum_list num_point_all));
          sample_prob = map (\<lambda>n. f64_div (f64_of_int (int n)) total) num_point_all
      in ebind (get_num_iter num_point_all n_points) (\<lambda>num_iter.
         ebind (extend_scene_idxs sample_prob num_iter [0..<n_infos] []) (\<lambda>scene_idxs.
         Inr (map astype_int32 scene_idxs))))"

text \<open>Lines 223 to 225, from the accumulated histogram.\<close>

definition compute_label_weight :: "'f f32_ops \<Rightarrow> 'f ScanNetSegData \<Rightarrow> f64 list \<Rightarrow> 'f list" where
  "compute_label_weight ops self label_weight =
     (let w1 = map (f32_of_f64 ops) (slice_to_last label_weight);
          total = f32_sum ops w1;
          w2 = map (\<lambda>e. f32_div ops e total) w1
      in map (f32_astype ops) (label_weight_func self w2))"

definition get_scene_idxs_and_label_weight ::
  "'f f32_ops \<Rightarrow> ext \<Rightarrow> 'f ScanNetSegData \<Rightarrow> fs \<Rightarrow> py_error + int list \<times> 'f list" where
  "get_scene_idxs_and_label_weight ops x self s =
     (let num_classes = length (seg_cat_ids self)
      in ebind (scan_scenes x self s (data_infos self)
                  ([], replicate (num_classes + 1) (Fin 0))) (\<lambda>(num_point_all, label_weight).
         ebind (resample_scene_idxs num_point_all (num_points self) (length (data_infos self)))
           (\<lambda>scene_idxs.
         Inr (scene_idxs, compute_label_weight ops self label_weight))))"

section \<open>Auxiliary definitions\<close>

text \<open>
  An action preserves the files outside a set of names when no run of it changes any of
  them; two file systems have the same inputs when they agree on every file whose name
  does not end in \<open>.bin\<close>.
\<close>

definition preserves :: "(string \<Rightarrow> bool) \<Rightarrow> 'a io \<Rightarrow> bool" where
  "preserves P m = (\<forall>s r s'. m s = (r, s') \<longrightarrow> (\<forall>p. \<not> P p \<longrightarrow> files s' p = files s p))"

definition same_inputs :: "fs \<Rightarrow> fs \<Rightarrow> bool" where
  "same_inputs s t = (\<forall>p. \<not> endswith p ''.bin'' \<longrightarrow> files t p = files s p)"

text \<open>
  The float32 operations as uninterpreted terms: with them a weight is the term that
  records how it was computed.
\<close>

datatype f32_term =
    Cast32 f64 | AsType32 f32_term | Sum32 "f32_term list" | Div32 f32_term f32_term
  | AddPy32 f64 f32_term | Log32 f32_term | RDivPy32 f64 f32_term

definition sym_ops :: "f32_term f32_ops" where
  "sym_ops = \<lparr>f32_of_f64 = Cast32, f32_astype = AsType32, f32_sum = Sum32, f32_div = Div32,
              f32_add_py = AddPy32, f32_log = Log32, f32_rdiv_py = RDivPy32\<rparr>"

text \<open>
  A small dataset: the raw files of three scenes, the second without boxes and the third
  with a box of the raw class 13, which is not a detection class; and the info records and
  flat semantic masks of the first two scenes.
\<close>

definition ext_none :: ext where
  "ext_none = \<lparr>npy_view = (\<lambda>_. Inl ValueError), long_view = (\<lambda>_. []),
               lines_view = (\<lambda>_. Inl UnicodeDecodeError), infos_view = (\<lambda>_. Inl ValueError)\<rparr>"

definition demo_boxes_00 :: "rat list list" where
  "demo_boxes_00 = [[1, 2, 3, 4, 5, 6, 5], [1 / 2, 2, 3, 4, 5, 6, 39]]"

definition demo_files :: "(string \<times> stored) list" where
  "demo_files =
     [(''data/meta_data/scannetv2_train.txt'', Text [''scene0000_00'', ''scene0000_01'']),
      (''data/scannet_train_instance_data/scene0000_00_vert.npy'',
         Npy (FloatMat [[0, 0, 0, 1, 1, 1], [1, 2, 3, 0, 0, 0]])),
      (''data/scannet_train_instance_data/scene0000_00_ins_label.npy'', Npy (IntVec [1, 0])),
      (''data/scannet_train_instance_data/scene0000_00_sem_label.npy'', Npy (IntVec [5, 0])),
      (''data/scannet_train_instance_data/scene0000_00_bbox.npy'', Npy (FloatMat demo_boxes_00)),
      (''data/scannet_train_instance_data/scene0000_01_vert.npy'',
         Npy (FloatMat [[0, 0, 0, 1, 1, 1]])),
      (''data/scannet_train_instance_data/scene0000_01_ins_label.npy'', Npy (IntVec [0])),
      (''data/scannet_train_instance_data/scene0000_01_sem_label.npy'', Npy (IntVec [40])),
      (''data/scannet_train_instance_data/scene0000_01_bbox.npy'', Npy (FloatMat [])),
      (''data/scannet_train_instance_data/scene0000_02_vert.npy'',
         Npy (FloatMat [[0, 0, 0, 1, 1, 1]])),
      (''data/scannet_train_instance_data/scene0000_02_ins_label.npy'', Npy (IntVec [1])),
      (''data/scannet_train_instance_data/scene0000_02_sem_label.npy'', Npy (IntVec [13])),
      (''data/scannet_train_instance_data/scene0000_02_bbox.npy'',
         Npy (FloatMat [[1, 2, 3, 4, 5, 6, 13]]))]"

definition demo_fs :: fs where
  "demo_fs = \<lparr>files = map_of demo_files, dirs = {''data''}\<rparr>"

definition demo_self :: ScanNetData where
  "demo_self = \<lparr>root_dir = ''data'', split = ''train'', split_dir = ''data'',
      classes = det_classes, cat2label = zip det_classes [0..<18],
      label2cat = zip [0..<18] det_classes, cat_ids = det_cat_ids,
      cat_ids2class = zip det_cat_ids [0..<18],
      sample_id_list = [''scene0000_00'', ''scene0000_01'']\<rparr>"

definition demo_info_00 :: info where
  "demo_info_00 =
     \<lparr>point_cloud = \<lparr>num_features = 6, lidar_idx = ''scene0000_00''\<rparr>,
      pts_path = ''points/scene0000_00.bin'',
      pts_instance_mask_path = ''instance_mask/scene0000_00.bin'',
      pts_semantic_mask_path = ''semantic_mask/scene0000_00.bin'',
      annos = Some
        [(''gt_num'', ACount 2),
         (''name'', ANames [''chair'', ''garbagebin'']),
         (''location'', AArr (FloatMat [[1, 2, 3], [1 / 2, 2, 3]])),
         (''dimensions'', AArr (FloatMat [[4, 5, 6], [4, 5, 6]])),
         (''gt_boxes_upright_depth'',
            AArr (FloatMat [[1, 2, 3, 4, 5, 6], [1 / 2, 2, 3, 4, 5, 6]])),
         (''index'', AArr (IntVec [0, 1])),
         (''class'', AArr (IntVec [2, 17]))]\<rparr>"

definition demo_info_01 :: info where
  "demo_info_01 =
     \<lparr>point_cloud = \<lparr>num_features = 6, lidar_idx = ''scene0000_01''\<rparr>,
      pts_path = ''points/scene0000_01.bin'',
      pts_instance_mask_path = ''instance_mask/scene0000_01.bin'',
      pts_semantic_mask_path = ''semantic_mask/scene0000_01.bin'',
      annos = Some [(''gt_num'', ACount 0)]\<rparr>"

definition demo_seg_files :: "(string \<times> stored) list" where
  "demo_seg_files =
     [(''data/scannet_infos_train.pkl'', Pkl [demo_info_00, demo_info_01]),
      (''data/semantic_mask/scene0000_00.bin'', Bin (IntVec [5, 0])),
      (''data/semantic_mask/scene0000_01.bin'', Bin (IntVec [40])),
      (''data/semantic_mask/scene0000_00.txt'', Bin (IntVec [5, 0]))]"

definition demo_seg_fs :: fs where
  "demo_seg_fs = \<lparr>files = map_of demo_seg_files, dirs = {''data'', ''data/semantic_mask''}\<rparr>"

definition demo_seg :: "f32_term ScanNetSegData" where
  "demo_seg =
     \<lparr>data_root = ''data'', data_infos = [demo_info_00, demo_info_01], seg_split = ''train'',
      num_points = 1, all_ids = map int [0..<41], seg_cat_ids = seg_cat_id_table,
      ignore_index = 20,
      cat_id2class = map (\<lambda>v. case list_index seg_cat_id_table v of
                                 Inr i \<Rightarrow> int i | Inl e \<Rightarrow> 20) (map int [0..<41]),
      label_weight_func = default_label_weight_func sym_ops\<rparr>"

definition demo_hist :: "f64 list" where
  "demo_hist = (replicate 21 (Fin 0))[4 := Fin 1, 20 := Fin 1]"

definition demo_freq :: "f32_term list" where
  "demo_freq = map (\<lambda>e. Div32 e (Sum32 (map Cast32 (butlast demo_hist))))
                 (map Cast32 (butlast demo_hist))"

definition demo_weight :: "f32_term list" where
  "demo_weight =
     map (\<lambda>e. AsType32 (RDivPy32 (Fin 1) (Log32 (AddPy32 (round_f64 (6 / 5)) e)))) demo_freq"

section \<open>Properties of \<open>ScanNetData\<close>\<close>

subsection \<open>The tables built by the constructor\<close>

lemma cat2label_table:
  "dict_comp (\<lambda>cat. ebind (list_index det_classes cat) (\<lambda>i. Inr (cat, i))) det_classes []
     = Inr (zip det_classes [0..<18])"
  by (simp add: det_classes_def ebind_def upt_rec)

lemma label2cat_table:
  "dict_comp (\<lambda>t. ebind (dict_get (zip det_classes [0..<18]) t) (\<lambda>l. Inr (l, t)))
     (dict_keys (zip det_classes [0..<18])) [] = Inr (zip [0..<18] det_classes)"
  by (simp add: det_classes_def ebind_def dict_keys_def upt_rec)

lemma cat_ids2class_table:
  "dict_comp (\<lambda>(i, nyu40id). Inr (nyu40id, i)) (enumerate_from 0 det_cat_ids) []
     = Inr (zip det_cat_ids [0..<18])"
  by (simp add: det_cat_ids_def upt_rec)

lemma ebind_Inr: "ebind (Inr v) f = f v" and ebind_Inl: "ebind (Inl e) f = Inl e"
  by (simp_all add: ebind_def)

lemma init_tables:
  assumes "ScanNetData_init x rp sp s = Inr self"
  shows "classes self = det_classes" "cat_ids self = det_cat_ids"
    "cat2label self = zip det_classes [0..<18]"
    "label2cat self = zip [0..<18] det_classes"
    "cat_ids2class self = zip det_cat_ids [0..<18]"
    "root_dir self = rp"
proof -
  from assms have "(if sp \<notin> set [''train'', ''val'', ''test''] then Inl AssertionError
     else
       let split_file = osp_join rp [''meta_data'', ''scannetv2_'' @ sp @ ''.txt'']
       in ebind (check_file_exist split_file s) (\<lambda>_.
          ebind (list_from_file x split_file s) (\<lambda>ids.
            Inr \<lparr>root_dir = rp, split = sp, split_dir = osp_join rp [],
                 classes = det_classes, cat2label = zip det_classes [0..<18],
                 label2cat = zip [0..<18] det_classes,
                 cat_ids = det_cat_ids, cat_ids2class = zip det_cat_ids [0..<18],
                 sample_id_list = ids\<rparr>))) = Inr self"
    by (simp only: ScanNetData_init_def cat2label_table ebind_Inr label2cat_table
        cat_ids2class_table)
  then have "\<exists>ids. self = \<lparr>root_dir = rp, split = sp, split_dir = osp_join rp [],
                 classes = det_classes, cat2label = zip det_classes [0..<18],
                 label2cat = zip [0..<18] det_classes,
                 cat_ids = det_cat_ids, cat_ids2class = zip det_cat_ids [0..<18],
                 sample_id_list = ids\<rparr>"
    by (auto simp: Let_def ebind_def split: if_splits sum.splits)
  then obtain ids where self: "self = \<lparr>root_dir = rp, split = sp, split_dir = osp_join rp [],
                 classes = det_classes, cat2label = zip det_classes [0..<18],
                 label2cat = zip [0..<18] det_classes,
                 cat_ids = det_cat_ids, cat_ids2class = zip det_cat_ids [0..<18],
                 sample_id_list = ids\<rparr>" by blast
  show "classes self = det_classes" "cat_ids self = det_cat_ids"
    "cat2label self = zip det_classes [0..<18]"
    "label2cat self = zip [0..<18] det_classes"
    "cat_ids2class self = zip det_cat_ids [0..<18]"
    "root_dir self = rp"
    by (simp_all add: self)
qed

lemma roundtrip_all:
  "list_all (\<lambda>i. dict_get (zip det_cat_ids [0..<18]) (det_cat_ids ! i) = Inr i
       \<and> dict_get (zip [0..<18] det_classes) i = Inr (det_classes ! i)
       \<and> dict_get_num (zip det_cat_ids [0..<18]) (of_int (det_cat_ids ! i)) = Inr i) [0..<18]"
  by (simp add: det_cat_ids_def det_classes_def upt_rec)

text \<open>
  C8: for every raw category id of the detection id table (the id at position \<open>i\<close> of the
  18 ids), \<open>cat_ids2class\<close> maps it to the class index \<open>i\<close>, and \<open>label2cat\<close> maps that
  index to the name at position \<open>i\<close> of the list of 18 class names the tables were built
  from.
\<close>

theorem cat_id_roundtrip:
  assumes "ScanNetData_init x rp sp s = Inr self" and "i < length (cat_ids self)"
  shows "length (cat_ids self) = 18 \<and> length (classes self) = 18
       \<and> dict_get (cat_ids2class self) (cat_ids self ! i) = Inr i
       \<and> dict_get (label2cat self) i = Inr (classes self ! i)
       \<and> ebind (dict_get (cat_ids2class self) (cat_ids self ! i)) (dict_get (label2cat self))
           = Inr (classes self ! i)"
proof -
  note t = init_tables[OF assms(1)]
  have len: "length det_cat_ids = 18" "length det_classes = 18"
    by (simp_all add: det_cat_ids_def det_classes_def)
  with assms(2) t have "i \<in> set [0..<18]" by simp
  with roundtrip_all have "dict_get (zip det_cat_ids [0..<18]) (det_cat_ids ! i) = Inr i
       \<and> dict_get (zip [0..<18] det_classes) i = Inr (det_classes ! i)"
    unfolding list_all_iff by blast
  then show ?thesis using t len by (simp add: ebind_def)
qed

subsection \<open>Files read and written by a scene\<close>

lemma endswith_append: "endswith (xs @ suf) suf"
  by (simp add: endswith_def)

lemma endswith_append_left: "endswith b suf \<Longrightarrow> endswith (a @ b) suf"
  by (auto simp: endswith_def)

lemma endswith_join_step: "endswith b suf \<Longrightarrow> endswith (join_step b path) suf"
  using endswith_append_left[of b suf "path @ ''/''"] endswith_append_left[of b suf path]
  by (simp add: join_step_def)

lemma endswith_osp_join2: "endswith b suf \<Longrightarrow> endswith (osp_join a [d, b]) suf"
  by (simp add: osp_join_def endswith_join_step)

lemma endswith_same_length: "endswith p u \<Longrightarrow> endswith p v \<Longrightarrow> length u = length v \<Longrightarrow> u = v"
  by (auto simp: endswith_def)

lemma bin_not_npy: "endswith p ''.bin'' \<Longrightarrow> \<not> endswith p ''.npy''"
  using endswith_same_length[of p "''.bin''" "''.npy''"] by auto

lemma io_bind_Inr:
  "io_bind m f s = (Inr y, s') \<longleftrightarrow> (\<exists>v s1. m s = (Inr v, s1) \<and> f v s1 = (Inr y, s'))"
  by (auto simp: io_bind_def split: prod.splits sum.splits)

lemma io_bind_Inr_step: "m s = (Inr v, s1) \<Longrightarrow> io_bind m f s = f v s1"
  by (simp add: io_bind_def)

lemma io_bind_Inl_step: "m s = (Inl e, s1) \<Longrightarrow> io_bind m f s = (Inl e, s1)"
  by (simp add: io_bind_def)

lemma preserves_bind: "preserves P m \<Longrightarrow> (\<And>v. preserves P (f v)) \<Longrightarrow> preserves P (io_bind m f)"
  unfolding preserves_def io_bind_def
  by (auto split: prod.splits sum.splits)

lemma preserves_return: "preserves P (io_return v)"
  by (simp add: preserves_def io_return_def)

lemma preserves_read: "preserves P (io_read r)"
  by (simp add: preserves_def io_read_def)

lemma preserves_mkdir: "preserves P (mkdir_or_exist d)"
  by (auto simp: preserves_def mkdir_or_exist_def split: if_splits)

lemma preserves_tofile: "P path \<Longrightarrow> preserves P (tofile a path)"
  by (auto simp: preserves_def tofile_def split: if_splits)

lemma preserves_seq: "(\<And>m. m \<in> set ms \<Longrightarrow> preserves P m) \<Longrightarrow> preserves P (io_seq ms)"
  by (induction ms) (auto intro: preserves_bind preserves_return)

lemma preserves_write_scene_files:
  "preserves (\<lambda>p. endswith p ''.bin'') (write_scene_files x self idx)"
  unfolding write_scene_files_def Let_def
  by (intro preserves_bind preserves_read preserves_return preserves_seq)
     (auto intro!: preserves_mkdir preserves_tofile endswith_osp_join2 endswith_append)

lemma preserves_process_single_scene:
  "preserves (\<lambda>p. endswith p ''.bin'') (process_single_scene x self has_label idx)"
  unfolding process_single_scene_def
  by (intro preserves_bind preserves_write_scene_files)
     (auto intro!: preserves_bind preserves_read preserves_return)

lemma executor_map_files:
  "(\<And>a. preserves P (f a)) \<Longrightarrow> executor_map f as s = (rs, s') \<Longrightarrow> \<not> P p
     \<Longrightarrow> files s' p = files s p"
proof (induction as arbitrary: s rs s')
  case Nil
  then show ?case by simp
next
  case (Cons a as)
  obtain r s1 where a: "f a s = (r, s1)" by (cases "f a s")
  obtain rs' s2 where r: "executor_map f as s1 = (rs', s2)" by (cases "executor_map f as s1")
  from Cons.prems(2) a r have "s' = s2" by simp
  moreover from Cons.IH[OF Cons.prems(1) r Cons.prems(3)] have "files s2 p = files s1 p" .
  moreover from Cons.prems(1)[of a] a Cons.prems(3) have "files s1 p = files s p"
    unfolding preserves_def by blast
  ultimately show ?case by simp
qed

lemma get_box_label_files:
  assumes "\<And>p. \<not> endswith p ''.bin'' \<Longrightarrow> files t p = files s p"
  shows "get_box_label x self idx t = get_box_label x self idx s"
proof -
  have "endswith (osp_join (root_dir self) [''scannet_train_instance_data'', idx @ ''_bbox.npy'']) ''.npy''"
    by (intro endswith_osp_join2 endswith_append_left) (simp add: endswith_def)
  then have "\<not> endswith (osp_join (root_dir self) [''scannet_train_instance_data'', idx @ ''_bbox.npy'']) ''.bin''"
    using bin_not_npy by blast
  from assms[OF this] show ?thesis
    by (simp add: get_box_label_def check_file_exist_def np_load_def Let_def)
qed


lemma emap_length: "emap f xs = Inr ys \<Longrightarrow> length ys = length xs"
  by (induction xs arbitrary: ys) (auto split: sum.splits)

lemma emap_nth: "emap f xs = Inr ys \<Longrightarrow> i < length xs \<Longrightarrow> f (xs ! i) = Inr (ys ! i)"
proof (induction xs arbitrary: ys i)
  case Nil
  then show ?case by simp
next
  case (Cons a xs)
  then show ?case by (cases i) (auto split: sum.splits)
qed

lemma emap_Inl_KeyError:
  assumes "\<And>v e. v \<in> set xs \<Longrightarrow> f v = Inl e \<Longrightarrow> e = KeyError"
    and "\<exists>v\<in>set xs. \<exists>e. f v = Inl e"
  shows "emap f xs = Inl KeyError"
  using assms
proof (induction xs)
  case Nil
  then show ?case by simp
next
  case (Cons a xs)
  show ?case
  proof (cases "f a")
    case (Inl e)
    with Cons.prems(1)[of a e] show ?thesis by simp
  next
    case (Inr y)
    with Cons.prems(2) have "\<exists>v\<in>set xs. \<exists>e. f v = Inl e" by auto
    with Cons.IH Cons.prems(1) have "emap f xs = Inl KeyError" by auto
    with Inr show ?thesis by simp
  qed
qed

lemma dict_get_num_Inl: "dict_get_num d v = Inl e \<Longrightarrow> e = KeyError"
  by (induction d) (auto split: if_splits)

lemma dict_get_Inl: "dict_get d k = Inl e \<Longrightarrow> e = KeyError"
  by (induction d) (auto split: if_splits)

lemma dict_get_num_missing: "v \<notin> of_int ` fst ` set d \<Longrightarrow> dict_get_num d v = Inl KeyError"
  by (induction d) auto

lemma dict_get_num_zip_upt:
  "dict_get_num (zip ks [n..<n + length ks]) v = Inr c
     \<Longrightarrow> n \<le> c \<and> c < n + length ks \<and> of_int (ks ! (c - n)) = v"
proof (induction ks arbitrary: n)
  case Nil
  then show ?case by simp
next
  case (Cons k ks)
  have upt: "[n..<n + length (k # ks)] = n # [Suc n..<Suc n + length ks]"
    by (simp add: upt_rec)
  show ?case
  proof (cases "of_int k = v")
    case True
    with Cons.prems upt show ?thesis by simp
  next
    case False
    with Cons.prems upt have "dict_get_num (zip ks [Suc n..<Suc n + length ks]) v = Inr c" by simp
    from Cons.IH[OF this] show ?thesis by (auto simp: Suc_diff_le)
  qed
qed

lemma dict_get_zip_upt:
  "dict_get (zip [n..<n + length xs] xs) c = Inr v
     \<Longrightarrow> n \<le> c \<and> c < n + length xs \<and> v = xs ! (c - n)"
proof (induction xs arbitrary: n)
  case Nil
  then show ?case by simp
next
  case (Cons a xs)
  have upt: "[n..<n + length (a # xs)] = n # [Suc n..<Suc n + length xs]"
    by (simp add: upt_rec)
  show ?case
  proof (cases "n = c")
    case True
    with Cons.prems upt show ?thesis by simp
  next
    case False
    with Cons.prems upt have "dict_get (zip [Suc n..<Suc n + length xs] xs) c = Inr v" by simp
    from Cons.IH[OF this] show ?thesis by (auto simp: Suc_diff_le)
  qed
qed

lemma det_lengths: "length det_cat_ids = 18" "length det_classes = 18"
  by (simp_all add: det_cat_ids_def det_classes_def)

lemma cat_ids2class_lookup:
  assumes "dict_get_num (zip det_cat_ids [0..<18]) v = Inr c"
  shows "c < 18 \<and> of_int (det_cat_ids ! c) = v"
  using dict_get_num_zip_upt[of det_cat_ids 0 v c] assms by (simp add: det_lengths)

lemma label2cat_lookup:
  assumes "dict_get (zip [0..<18] det_classes) c = Inr v"
  shows "c < 18 \<and> v = det_classes ! c"
  using dict_get_zip_upt[of 0 det_classes c v] assms by (simp add: det_lengths)

lemma write_scene_files_Inr:
  assumes "write_scene_files x self idx s = (Inr i0, s')"
  shows "lidar_idx (point_cloud i0) = idx \<and> annos i0 = None"
  using assms unfolding write_scene_files_def Let_def
  by (auto simp: io_bind_Inr io_return_def)

lemma process_single_scene_Inr:
  assumes "process_single_scene x self has_label idx s = (Inr info, s')"
  shows "\<exists>i0. write_scene_files x self idx s = (Inr i0, s') \<and>
           (if has_label
            then \<exists>a. load_annotations x self idx s' = Inr a \<and> info = i0\<lparr>annos := Some a\<rparr>
            else info = i0)"
  using assms unfolding process_single_scene_def
  by (auto simp: io_bind_Inr io_return_def io_read_def split: if_splits)

lemma load_annotations_after_write:
  assumes "write_scene_files x self idx s = (r, s')"
  shows "load_annotations x self idx s' = load_annotations x self idx s"
proof -
  from preserves_write_scene_files[of x self idx] assms
  have "\<And>p. \<not> endswith p ''.bin'' \<Longrightarrow> files s' p = files s p"
    unfolding preserves_def by blast
  from get_box_label_files[OF this] show ?thesis by (simp add: load_annotations_def)
qed

lemma lidar_idx_kept:
  assumes "process_single_scene x self has_label idx s = (Inr info, s')"
  shows "lidar_idx (point_cloud info) = idx"
proof -
  from process_single_scene_Inr[OF assms] obtain i0 where
    w: "write_scene_files x self idx s = (Inr i0, s')" and
    i: "(\<exists>a. info = i0\<lparr>annos := Some a\<rparr>) \<or> info = i0" by (auto split: if_splits)
  from write_scene_files_Inr[OF w] i show ?thesis by auto
qed


lemma annos_of_scene:
  assumes "process_single_scene x self True idx s = (Inr info, s')"
  shows "\<exists>a. load_annotations x self idx s = Inr a \<and> annos info = Some a"
proof -
  from process_single_scene_Inr[OF assms] obtain i0 a where
    w: "write_scene_files x self idx s = (Inr i0, s')" and
    l: "load_annotations x self idx s' = Inr a" and i: "info = i0\<lparr>annos := Some a\<rparr>"
    by auto
  from load_annotations_after_write[OF w] l i show ?thesis by simp
qed

text \<open>
  C7: for a scene processed with labels whose box array has no row, the info record has an
  annotation block, and the block holds the key \<open>gt_num\<close> with the count 0 and nothing else.
\<close>

theorem empty_scene_annotations:
  assumes "process_single_scene x self True idx s = (Inr info, s')"
    and "get_box_label x self idx s = Inr boxes"
    and "shape0 boxes = 0"
  shows "annos info = Some [(''gt_num'', ACount 0)]"
proof -
  from annos_of_scene[OF assms(1)] obtain a where
    l: "load_annotations x self idx s = Inr a" and a: "annos info = Some a" by blast
  from l assms(2,3) have "a = [(''gt_num'', ACount 0)]"
    by (simp add: load_annotations_def ebind_def)
  with a show ?thesis by simp
qed

lemma box_annotations_FloatMat:
  assumes "box_annotations self (FloatMat rows) [(''gt_num'', ACount (length rows))] = Inr a"
    and "\<forall>r\<in>set rows. length r = 7"
  shows "\<exists>names cls.
      emap (\<lambda>i. ebind (dict_get_num (cat_ids2class self) (map last rows ! i))
                   (dict_get (label2cat self))) [0..<length rows] = Inr names \<and>
      emap (\<lambda>i. dict_get_num (cat_ids2class self) (map last rows ! i)) [0..<length rows] = Inr cls \<and>
      a = [(''gt_num'', ACount (length rows)), (''name'', ANames names),
           (''location'', AArr (FloatMat (map (take 3) rows))),
           (''dimensions'', AArr (FloatMat (map (\<lambda>r. take 3 (drop 3 r)) rows))),
           (''gt_boxes_upright_depth'', AArr (FloatMat (map (take 6) rows))),
           (''index'', AArr (IntVec (map int [0..<length rows]))),
           (''class'', AArr (IntVec (map int cls)))]"
proof -
  have ne: "\<not> list_ex (\<lambda>r. r = []) rows" using assms(2) by (auto simp: list_ex_iff)
  have m1: "map slice_to_last rows = map (take 6) rows"
    using assms(2) by (simp add: slice_to_last_def)
  from assms(1) show ?thesis
    unfolding box_annotations_def Let_def
    by (auto simp: ebind_def ne m1 slice_range_def drop_take split: sum.splits)
qed

text \<open>
  C6: for a scene that is processed with labels and whose box array has \<open>K > 0\<close> rows of 7
  entries, the annotation block holds the count \<open>K\<close> and six arrays of length \<open>K\<close>: the first
  three entries of every row as location, the entries 3 to 5 as dimensions, the first six
  as the box, the indices \<open>0, ..., K - 1\<close>, and the class index and class name of the raw id
  in the last column of every row.
\<close>

theorem annotation_arrays:
  assumes "ScanNetData_init x rp sp s0 = Inr self"
    and "process_single_scene x self True idx s = (Inr info, s')"
    and "get_box_label x self idx s = Inr (FloatMat rows)"
    and "rows \<noteq> []"
    and "\<forall>r\<in>set rows. length r = 7"
  shows "\<exists>names cls.
      annos info = Some
        [(''gt_num'', ACount (length rows)), (''name'', ANames names),
         (''location'', AArr (FloatMat (map (take 3) rows))),
         (''dimensions'', AArr (FloatMat (map (\<lambda>r. take 3 (drop 3 r)) rows))),
         (''gt_boxes_upright_depth'', AArr (FloatMat (map (take 6) rows))),
         (''index'', AArr (IntVec (map int [0..<length rows]))),
         (''class'', AArr (IntVec (map int cls)))] \<and>
      length names = length rows \<and> length cls = length rows \<and>
      (\<forall>i<length rows. cls ! i < 18 \<and> of_int (det_cat_ids ! (cls ! i)) = last (rows ! i)
                          \<and> names ! i = det_classes ! (cls ! i))"
proof -
  note t = init_tables[OF assms(1)]
  from annos_of_scene[OF assms(2)] obtain a where
    l: "load_annotations x self idx s = Inr a" and a: "annos info = Some a" by blast
  from l assms(3,4)
  have "box_annotations self (FloatMat rows) [(''gt_num'', ACount (length rows))] = Inr a"
    by (simp add: load_annotations_def ebind_def)
  from box_annotations_FloatMat[OF this assms(5)] obtain names cls where
    n: "emap (\<lambda>i. ebind (dict_get_num (cat_ids2class self) (map last rows ! i))
                   (dict_get (label2cat self))) [0..<length rows] = Inr names" and
    c: "emap (\<lambda>i. dict_get_num (cat_ids2class self) (map last rows ! i)) [0..<length rows] = Inr cls" and
    av: "a = [(''gt_num'', ACount (length rows)), (''name'', ANames names),
           (''location'', AArr (FloatMat (map (take 3) rows))),
           (''dimensions'', AArr (FloatMat (map (\<lambda>r. take 3 (drop 3 r)) rows))),
           (''gt_boxes_upright_depth'', AArr (FloatMat (map (take 6) rows))),
           (''index'', AArr (IntVec (map int [0..<length rows]))),
           (''class'', AArr (IntVec (map int cls)))]" by blast
  have ln: "length names = length rows" using emap_length[OF n] by simp
  have lc: "length cls = length rows" using emap_length[OF c] by simp
  have "cls ! i < 18 \<and> of_int (det_cat_ids ! (cls ! i)) = last (rows ! i)
           \<and> names ! i = det_classes ! (cls ! i)" if i: "i < length rows" for i
  proof -
    from emap_nth[OF c, of i] i
    have ci: "dict_get_num (zip det_cat_ids [0..<18]) (last (rows ! i)) = Inr (cls ! i)"
      by (simp add: t)
    from emap_nth[OF n, of i] i ci
    have "dict_get (zip [0..<18] det_classes) (cls ! i) = Inr (names ! i)"
      by (simp add: t ebind_def)
    from cat_ids2class_lookup[OF ci] label2cat_lookup[OF this] show ?thesis by simp
  qed
  with a av ln lc show ?thesis by blast
qed


lemma same_inputs_refl: "same_inputs s s"
  by (simp add: same_inputs_def)

lemma same_inputs_step:
  assumes "same_inputs s t" and "process_single_scene x self has_label a t = (r, t')"
  shows "same_inputs s t'"
  using assms preserves_process_single_scene[of x self has_label a]
  unfolding same_inputs_def preserves_def by (metis (no_types, lifting))

lemma same_inputs_write:
  assumes "same_inputs s t" and "write_scene_files x self a t = (r, t')"
  shows "same_inputs s t'"
  using assms preserves_write_scene_files[of x self a]
  unfolding same_inputs_def preserves_def by (metis (no_types, lifting))

lemma load_annotations_same_inputs:
  "same_inputs s t \<Longrightarrow> load_annotations x self idx t = load_annotations x self idx s"
  using get_box_label_files[of t s x self idx]
  by (simp add: same_inputs_def load_annotations_def)

lemma last_col_shape:
  "last_col boxes = Inr cls \<Longrightarrow> length (items cls) = shape0 boxes \<and>
     (\<exists>m. cols slice_to_last slice_to_last boxes = Inr m)"
  by (cases boxes) (auto split: if_splits)

lemma box_annotations_unmapped:
  assumes "last_col boxes = Inr cls"
    and "\<exists>v\<in>set (items cls). v \<notin> of_int ` fst ` set (cat_ids2class self)"
  shows "box_annotations self boxes a0 = Inl KeyError"
proof -
  from last_col_shape[OF assms(1)] obtain m where
    len: "length (items cls) = shape0 boxes" and
    m: "cols slice_to_last slice_to_last boxes = Inr m" by blast
  from assms(2) obtain i where i: "i < length (items cls)"
    and "items cls ! i \<notin> of_int ` fst ` set (cat_ids2class self)"
    by (auto simp: in_set_conv_nth)
  then have "dict_get_num (cat_ids2class self) (items cls ! i) = Inl KeyError"
    by (simp add: dict_get_num_missing)
  then have bad: "ebind (dict_get_num (cat_ids2class self) (items cls ! i))
                    (dict_get (label2cat self)) = Inl KeyError"
    by (simp add: ebind_def)
  have "emap (\<lambda>i. ebind (dict_get_num (cat_ids2class self) (items cls ! i))
                   (dict_get (label2cat self))) [0..<shape0 boxes] = Inl KeyError"
  proof (rule emap_Inl_KeyError)
    fix v e
    assume "ebind (dict_get_num (cat_ids2class self) (items cls ! v))
              (dict_get (label2cat self)) = Inl e"
    then show "e = KeyError"
      by (auto simp: ebind_def split: sum.splits dest: dict_get_num_Inl dict_get_Inl)
  next
    from i len bad
    show "\<exists>v\<in>set [0..<shape0 boxes]. \<exists>e. ebind (dict_get_num (cat_ids2class self) (items cls ! v))
              (dict_get (label2cat self)) = Inl e"
      by auto
  qed
  then show ?thesis
    unfolding box_annotations_def Let_def by (simp add: m assms(1) ebind_def)
qed

lemma load_annotations_unmapped:
  assumes "get_box_label x self idx s = Inr boxes"
    and "last_col boxes = Inr cls"
    and "\<exists>v\<in>set (items cls). v \<notin> of_int ` fst ` set (cat_ids2class self)"
  shows "load_annotations x self idx s = Inl KeyError"
proof -
  from assms(3) last_col_shape[OF assms(2)] have "shape0 boxes \<noteq> 0" by auto
  with assms(1) box_annotations_unmapped[OF assms(2,3)] show ?thesis
    by (simp add: load_annotations_def ebind_def)
qed

lemma process_single_scene_unmapped:
  assumes "load_annotations x self idx s = Inl KeyError" and "same_inputs s t"
  shows "(\<exists>e t'. process_single_scene x self True idx t = (Inl e, t')) \<and>
         (\<forall>i0 t1. write_scene_files x self idx t = (Inr i0, t1)
            \<longrightarrow> process_single_scene x self True idx t = (Inl KeyError, t1))"
proof -
  obtain r t1 where w: "write_scene_files x self idx t = (r, t1)"
    by (cases "write_scene_files x self idx t")
  from same_inputs_write[OF assms(2) w] have "same_inputs s t1" .
  from load_annotations_same_inputs[OF this] assms(1)
  have l: "load_annotations x self idx t1 = Inl KeyError" by simp
  show ?thesis
  proof (cases r)
    case (Inl e)
    with w show ?thesis by (simp add: process_single_scene_def io_bind_def)
  next
    case (Inr i0)
    with w l show ?thesis
      by (simp add: process_single_scene_def io_bind_def io_read_def)
  qed
qed

lemma executor_map_append:
  "executor_map f (as @ bs) s =
     (case executor_map f as s of (rs, s1) \<Rightarrow>
        (case executor_map f bs s1 of (rs', s2) \<Rightarrow> (rs @ rs', s2)))"
  by (induction as arbitrary: s) (auto split: prod.splits)

lemma list_of_results_append_Inl:
  "list_of_results rs = Inr vs \<Longrightarrow> list_of_results (rs @ Inl e # rs') = Inl e"
proof (induction rs arbitrary: vs)
  case Nil
  then show ?case by simp
next
  case (Cons r rs)
  then show ?case by (cases r) (auto split: sum.splits)
qed

lemma list_of_results_has_Inl:
  "\<exists>r\<in>set rs. \<exists>e. r = Inl e \<Longrightarrow> \<exists>e. list_of_results rs = Inl e"
proof (induction rs)
  case Nil
  then show ?case by simp
next
  case (Cons r rs)
  then show ?case by (cases r; cases "list_of_results rs") auto
qed

lemma executor_map_failing_scene:
  assumes "\<And>t. same_inputs s t \<Longrightarrow> \<exists>e t'. process_single_scene x self hl idx t = (Inl e, t')"
    and "idx \<in> set ids" and "same_inputs s t"
    and "executor_map (process_single_scene x self hl) ids t = (rs, t')"
  shows "\<exists>r\<in>set rs. \<exists>e. r = Inl e"
  using assms(2-)
proof (induction ids arbitrary: t rs t')
  case Nil
  then show ?case by simp
next
  case (Cons a ids)
  obtain r t1 where a: "process_single_scene x self hl a t = (r, t1)"
    by (cases "process_single_scene x self hl a t")
  obtain rs1 t2 where m: "executor_map (process_single_scene x self hl) ids t1 = (rs1, t2)"
    by (cases "executor_map (process_single_scene x self hl) ids t1")
  from Cons.prems(3) a m have rs: "rs = r # rs1" by simp
  show ?case
  proof (cases "a = idx")
    case True
    with assms(1)[OF Cons.prems(2)] a rs show ?thesis by auto
  next
    case False
    with Cons.prems(1) have "idx \<in> set ids" by simp
    from Cons.IH[OF this same_inputs_step[OF Cons.prems(2) a] m] rs show ?thesis by auto
  qed
qed

lemma executor_map_same_inputs:
  "same_inputs s t \<Longrightarrow> executor_map (process_single_scene x self hl) ids t = (rs, t')
     \<Longrightarrow> same_inputs s t'"
proof (induction ids arbitrary: t rs t')
  case Nil
  then show ?case by simp
next
  case (Cons a ids)
  obtain r t1 where a: "process_single_scene x self hl a t = (r, t1)"
    by (cases "process_single_scene x self hl a t")
  obtain rs1 t2 where m: "executor_map (process_single_scene x self hl) ids t1 = (rs1, t2)"
    by (cases "executor_map (process_single_scene x self hl) ids t1")
  from Cons.prems(2) a m have "t' = t2" by simp
  with Cons.IH[OF same_inputs_step[OF Cons.prems(1) a] m] show ?case by simp
qed

text \<open>
  C1: when the box array of a scene has a row whose raw class id (its last column) is not a
  key of the 18-entry detection id table, building the annotations of that scene raises
  \<open>KeyError\<close>; processing the scene returns no info record at all, so no partial annotation
  record either; and \<open>get_infos\<close> on any id list containing the scene raises: with the
  \<open>KeyError\<close> itself when the scenes before it succeed and the scene's files are written.
\<close>

theorem unmapped_id_raises:
  assumes "ScanNetData_init x rp sp s0 = Inr self"
    and "get_box_label x self idx s = Inr boxes"
    and "last_col boxes = Inr cls"
    and "\<exists>v\<in>set (items cls). v \<notin> of_int ` set (cat_ids self)"
  shows "load_annotations x self idx s = Inl KeyError
     \<and> (\<exists>e s'. process_single_scene x self True idx s = (Inl e, s'))
     \<and> (\<forall>i0 s1. write_scene_files x self idx s = (Inr i0, s1)
           \<longrightarrow> process_single_scene x self True idx s = (Inl KeyError, s1))
     \<and> (idx \<in> set ids \<longrightarrow> (\<exists>e. fst (get_infos x self nw True (Some ids) s) = Inl e))
     \<and> (\<forall>pre post rs s1 vs i0 s2.
           0 < nw \<and> ids = pre @ idx # post
           \<and> executor_map (process_single_scene x self True) pre s = (rs, s1)
           \<and> list_of_results rs = Inr vs
           \<and> write_scene_files x self idx s1 = (Inr i0, s2)
           \<longrightarrow> fst (get_infos x self nw True (Some ids) s) = Inl KeyError)"
proof -
  note t = init_tables[OF assms(1)]
  have "fst ` set (zip det_cat_ids [0..<18]) = set det_cat_ids"
    by (simp add: det_cat_ids_def upt_rec)
  with assms(4) t
  have un: "\<exists>v\<in>set (items cls). v \<notin> of_int ` fst ` set (cat_ids2class self)" by simp
  have l: "load_annotations x self idx s = Inl KeyError"
    by (rule load_annotations_unmapped[OF assms(2,3) un])
  note p = process_single_scene_unmapped[OF l]
  have g: "\<exists>e. fst (get_infos x self nw True (Some ids) s) = Inl e" if "idx \<in> set ids"
  proof (cases "nw \<le> 0")
    case True
    then show ?thesis by (simp add: get_infos_def)
  next
    case False
    obtain rs s' where m: "executor_map (process_single_scene x self True) ids s = (rs, s')"
      by (cases "executor_map (process_single_scene x self True) ids s")
    have "\<exists>r\<in>set rs. \<exists>e. r = Inl e"
      by (rule executor_map_failing_scene[OF _ that same_inputs_refl m]) (use p in blast)
    from list_of_results_has_Inl[OF this] False m show ?thesis
      by (simp add: get_infos_def)
  qed
  have h: "fst (get_infos x self nw True (Some ids) s) = Inl KeyError"
    if "0 < nw" "ids = pre @ idx # post"
      "executor_map (process_single_scene x self True) pre s = (rs, s1)"
      "list_of_results rs = Inr vs" "write_scene_files x self idx s1 = (Inr i0, s2)"
    for pre post rs s1 vs i0 s2
  proof -
    from executor_map_same_inputs[OF same_inputs_refl that(3)] have "same_inputs s s1" .
    from p[OF this] that(5)
    have "process_single_scene x self True idx s1 = (Inl KeyError, s2)" by blast
    with that(1-4) list_of_results_append_Inl[OF that(4)] show ?thesis
      by (auto simp: get_infos_def executor_map_append split: prod.splits)
  qed
  from l p[OF same_inputs_refl] g h show ?thesis by blast
qed

lemma executor_map_lidar_idx:
  assumes "executor_map (process_single_scene x self hl) ids s = (rs, s')"
    and "list_of_results rs = Inr infos"
  shows "map (\<lambda>i. lidar_idx (point_cloud i)) infos = ids"
  using assms
proof (induction ids arbitrary: s rs s' infos)
  case Nil
  then show ?case by auto
next
  case (Cons a ids)
  obtain r t1 where a: "process_single_scene x self hl a s = (r, t1)"
    by (cases "process_single_scene x self hl a s")
  obtain rs1 t2 where m: "executor_map (process_single_scene x self hl) ids t1 = (rs1, t2)"
    by (cases "executor_map (process_single_scene x self hl) ids t1")
  from Cons.prems(1) a m have rs: "rs = r # rs1" by simp
  with Cons.prems(2) obtain v vs where r: "r = Inr v" and vs: "list_of_results rs1 = Inr vs"
    and infos: "infos = v # vs"
    by (cases r; cases "list_of_results rs1") auto
  from lidar_idx_kept a r have "lidar_idx (point_cloud v) = a" by blast
  with Cons.IH[OF m vs] infos show ?case by simp
qed

text \<open>
  C9: when \<open>get_infos\<close> returns, it returns one info record per id of the list it was given
  (or of the split list loaded by the constructor when none was given), in the order of
  that list, and the \<open>lidar_idx\<close> of the record at position \<open>i\<close> is the id at position \<open>i\<close>.
\<close>

theorem get_infos_order:
  assumes "get_infos x self nw has_label ids s = (Inr infos, s')"
  shows "map (\<lambda>i. lidar_idx (point_cloud i)) infos =
           (case ids of Some l \<Rightarrow> l | None \<Rightarrow> sample_id_list self)
       \<and> length infos = length (case ids of Some l \<Rightarrow> l | None \<Rightarrow> sample_id_list self)"
proof -
  let ?ids = "case ids of Some l \<Rightarrow> l | None \<Rightarrow> sample_id_list self"
  obtain rs t where m: "executor_map (process_single_scene x self has_label) ?ids s = (rs, t)"
    by (cases "executor_map (process_single_scene x self has_label) ?ids s")
  with assms have "list_of_results rs = Inr infos"
    by (auto simp: get_infos_def Let_def split: if_splits)
  from executor_map_lidar_idx[OF m this] have e: "map (\<lambda>i. lidar_idx (point_cloud i)) infos = ?ids" .
  then have "length infos = length ?ids" by (metis length_map)
  with e show ?thesis by simp
qed

section \<open>Properties of the float64 rounding\<close>

lemma bitlen_powi:
  assumes "0 < (p::int)"
  shows "(2::rat) powi (bitlen p - 1) \<le> of_int p" "of_int p < (2::rat) powi (bitlen p)"
proof -
  from bitlen_bounds[OF assms] have b: "2 ^ nat (bitlen p - 1) \<le> p" "p < 2 ^ nat (bitlen p)"
    by auto
  have ge: "1 \<le> bitlen p" using assms by (simp add: bitlen_alt_def)
  from b(1) have "(of_int (2 ^ nat (bitlen p - 1)) :: rat) \<le> of_int p"
    by (simp only: of_int_le_iff)
  then show "(2::rat) powi (bitlen p - 1) \<le> of_int p"
    using ge by (simp add: power_int_def)
  from b(2) have "(of_int p :: rat) < of_int (2 ^ nat (bitlen p))"
    by (simp only: of_int_less_iff)
  then show "of_int p < (2::rat) powi (bitlen p)"
    using ge by (simp add: power_int_def)
qed

lemma ilog2_bounds:
  assumes "0 < x"
  shows "2 powi (ilog2 x) \<le> x" "x < 2 powi (ilog2 x + 1)"
proof -
  obtain p q where pq: "quotient_of x = (p, q)" by (cases "quotient_of x")
  have q: "0 < q" using quotient_of_denom_pos[OF pq] .
  have x: "x = of_int p / of_int q" using quotient_of_div[OF pq] .
  have p: "0 < p" using assms q x by (simp add: zero_less_divide_iff)
  let ?d = "bitlen p - bitlen q"
  have qr: "(0::rat) < of_int q" using q by simp
  have up: "x < 2 powi (?d + 1)"
  proof -
    have "of_int p < (2::rat) powi (bitlen p)" using bitlen_powi(2)[OF p] .
    also have "\<dots> = 2 powi (?d + 1) * 2 powi (bitlen q - 1)"
      by (simp flip: power_int_add)
    also have "\<dots> \<le> 2 powi (?d + 1) * of_int q"
      using bitlen_powi(1)[OF q] by (intro mult_left_mono) auto
    finally show ?thesis using qr by (simp add: x pos_divide_less_eq)
  qed
  have lo: "2 powi (?d - 1) \<le> x"
  proof -
    have "2 powi (?d - 1) * of_int q \<le> (2::rat) powi (?d - 1) * 2 powi (bitlen q)"
      using bitlen_powi(2)[OF q] by (intro mult_left_mono) auto
    also have "\<dots> = 2 powi (bitlen p - 1)"
      by (simp flip: power_int_add)
    also have "\<dots> \<le> of_int p" using bitlen_powi(1)[OF p] .
    finally show ?thesis using qr by (simp add: x pos_le_divide_eq)
  qed
  show "2 powi (ilog2 x) \<le> x" using lo by (simp add: ilog2_def pq Let_def)
  show "x < 2 powi (ilog2 x + 1)" using up by (auto simp: ilog2_def pq Let_def)
qed

lemma ilog2_less:
  assumes "0 < x" "x < 2 powi n"
  shows "ilog2 x < n"
proof (rule ccontr)
  assume "\<not> ilog2 x < n"
  then have "(2::rat) powi n \<le> 2 powi (ilog2 x)" by (intro power_int_increasing) auto
  with ilog2_bounds(1)[OF assms(1)] assms(2) show False by linarith
qed

lemma ilog2_ge:
  assumes "0 < x" "2 powi n \<le> x"
  shows "n \<le> ilog2 x"
proof (rule ccontr)
  assume "\<not> n \<le> ilog2 x"
  then have "(2::rat) powi (ilog2 x + 1) \<le> 2 powi n" by (intro power_int_increasing) auto
  with ilog2_bounds(2)[OF assms(1)] assms(2) show False by linarith
qed

lemma rhe_bounds: "\<bar>of_int (round_half_even y) - y\<bar> \<le> 1 / 2"
  using floor_correct[of y] by (auto simp: round_half_even_def Let_def)

lemma rhe_of_int: "round_half_even (of_int m) = m"
  by (simp add: round_half_even_def)

lemma rhe_ge: "of_int m \<le> y \<Longrightarrow> m \<le> round_half_even y"
proof -
  assume "of_int m \<le> y"
  then have "m \<le> \<lfloor>y\<rfloor>" by (simp add: le_floor_iff)
  then show ?thesis by (auto simp: round_half_even_def Let_def)
qed

lemma rhe_le: "y \<le> of_int m \<Longrightarrow> round_half_even y \<le> m"
proof (cases "y = of_int m")
  case True
  then show ?thesis by (simp add: rhe_of_int)
next
  case False
  assume "y \<le> of_int m"
  with False have "y < of_int m" by simp
  then have "\<lfloor>y\<rfloor> < m" by (simp add: floor_less_iff)
  then show ?thesis by (auto simp: round_half_even_def Let_def)
qed

text \<open>The rounding of a positive value below \<open>2\<^sup>5\<^sup>3\<close>, on its grid of spacing \<open>2\<^sup>-\<^sup>k\<close>.\<close>

lemma fl64_grid:
  assumes "0 < x" "x < 2 ^ 53"
  obtains k :: nat where "fl64 x = of_int (round_half_even (x * 2 ^ k)) / 2 ^ k"
    and "2 powi (52 - int k) \<le> x \<or> x < 2 powi (- 1022)"
proof -
  let ?e = "max (ilog2 x) (- 1022)"
  have "x < 2 powi 53" using assms(2) by simp
  from ilog2_less[OF assms(1) this] have e: "?e \<le> 52" by simp
  define k where "k = nat (52 - ?e)"
  have ke: "?e - 52 = - int k" using e by (simp add: k_def)
  have u: "(2::rat) powi (?e - 52) = 1 / 2 ^ k"
    unfolding ke by (simp add: power_int_minus field_simps)
  have f: "fl64 x = of_int (round_half_even (x * 2 ^ k)) / 2 ^ k"
    using assms(1) by (simp add: fl64_def Let_def u)
  have "2 powi (52 - int k) \<le> x \<or> x < 2 powi (- 1022)"
  proof (cases "- 1022 \<le> ilog2 x")
    case True
    then have "52 - int k = ilog2 x" using e by (simp add: k_def)
    with ilog2_bounds(1)[OF assms(1)] show ?thesis by simp
  next
    case False
    then have "ilog2 x + 1 \<le> - 1022" by simp
    then have "(2::rat) powi (ilog2 x + 1) \<le> 2 powi (- 1022)"
      by (intro power_int_increasing) auto
    with ilog2_bounds(2)[OF assms(1)] show ?thesis by linarith
  qed
  with f show ?thesis using that by blast
qed

lemma fl64_le_int:
  assumes "0 \<le> x" "x \<le> of_int c" "c < 2 ^ 53"
  shows "0 \<le> fl64 x \<and> fl64 x \<le> of_int c"
proof (cases "x = 0")
  case True
  with assms show ?thesis by (simp add: fl64_def)
next
  case False
  with assms have x: "0 < x" by simp
  have "x < 2 ^ 53"
  proof -
    have "(of_int c :: rat) < of_int (2 ^ 53)" using assms(3) by (simp only: of_int_less_iff)
    with assms(2) show ?thesis by simp
  qed
  from fl64_grid[OF x this] obtain k :: nat where
    f: "fl64 x = of_int (round_half_even (x * 2 ^ k)) / 2 ^ k" by blast
  have "x * 2 ^ k \<le> of_int (c * 2 ^ k)" using assms(2) by simp
  from rhe_le[OF this] have "(of_int (round_half_even (x * 2 ^ k)) :: rat) \<le> of_int (c * 2 ^ k)"
    by (simp only: of_int_le_iff)
  then have up: "fl64 x \<le> of_int c" by (simp add: f field_simps)
  have "of_int 0 \<le> x * 2 ^ k" using x by simp
  from rhe_ge[OF this] have "0 \<le> fl64 x" by (simp add: f)
  with up show ?thesis by simp
qed

lemma fl64_of_int:
  assumes "0 \<le> n" "n < 2 ^ 53"
  shows "fl64 (of_int n) = of_int n"
proof (cases "n = 0")
  case True
  then show ?thesis by (simp add: fl64_def)
next
  case False
  with assms have x: "(0::rat) < of_int n" by simp
  have "(of_int n :: rat) < of_int (2 ^ 53)" using assms(2) by (simp only: of_int_less_iff)
  then have "(of_int n :: rat) < 2 ^ 53" by simp
  from fl64_grid[OF x this] obtain k :: nat where
    f: "fl64 (of_int n) = of_int (round_half_even (of_int n * 2 ^ k)) / 2 ^ k" by blast
  have "round_half_even (of_int n * 2 ^ k) = n * 2 ^ k"
    using rhe_of_int[of "n * 2 ^ k"] by simp
  with f show ?thesis by simp
qed

lemma round_f64_small:
  assumes "0 \<le> fl64 x" "fl64 x < 2 ^ 1024"
  shows "round_f64 x = Fin (fl64 x)"
proof (cases "fl64 x = 0")
  case True
  then show ?thesis by (simp add: round_f64_def)
next
  case False
  with assms have p: "0 < fl64 x" by simp
  have "fl64 x < 2 powi 1024" using assms(2) by simp
  from ilog2_less[OF p this] p show ?thesis by (simp add: round_f64_def Let_def)
qed

lemma round_f64_le_int:
  assumes "0 \<le> x" "x \<le> of_int c" "c < 2 ^ 53"
  shows "round_f64 x = Fin (fl64 x)"
proof -
  from fl64_le_int[OF assms] have b: "0 \<le> fl64 x" "fl64 x \<le> of_int c" by auto
  have "(of_int c :: rat) < of_int (2 ^ 53)" using assms(3) by (simp only: of_int_less_iff)
  then have "(of_int c :: rat) < 2 ^ 53" by simp
  also have "\<dots> < (2::rat) ^ 1024" by (intro power_strict_increasing) auto
  finally have "fl64 x < 2 ^ 1024" using b(2) by simp
  from round_f64_small[OF b(1) this] show ?thesis .
qed

lemma f64_of_int_exact:
  assumes "0 \<le> n" "n < 2 ^ 53"
  shows "f64_of_int n = Fin (of_int n)"
proof -
  have "round_f64 (of_int n) = Fin (fl64 (of_int n))"
    by (rule round_f64_le_int[of _ n]) (use assms in auto)
  then show ?thesis by (simp add: f64_of_int_def fl64_of_int[OF assms])
qed

lemma fl64_quotient_floor:
  assumes "0 < S" "S < 2 ^ 53" "0 < np" "np < 2 ^ 53"
  shows "of_int (S div np) \<le> fl64 (of_int S / of_int np)"
    and "fl64 (of_int S / of_int np) < of_int (S div np) + 1"
proof -
  define n :: rat where "n = of_int np"
  define Sr :: rat where "Sr = of_int S"
  define K :: rat where "K = of_int (S div np)"
  have n: "0 < n" "1 \<le> n" using assms(3) by (simp_all add: n_def)
  have Sr: "0 < Sr" using assms(1) by (simp add: Sr_def)
  have Sr53: "Sr < 2 ^ 53"
  proof -
    have "(of_int S :: rat) < of_int (2 ^ 53)" using assms(2) by (simp only: of_int_less_iff)
    then show ?thesis by (simp add: Sr_def)
  qed
  have n53: "n < 2 ^ 53"
  proof -
    have "(of_int np :: rat) < of_int (2 ^ 53)" using assms(4) by (simp only: of_int_less_iff)
    then show ?thesis by (simp add: n_def)
  qed
  have q0: "0 < Sr / n" using Sr n by simp
  have "Sr / n \<le> Sr" using Sr n by (simp add: field_simps)
  with Sr53 have q53: "Sr / n < 2 ^ 53" by simp
  have dm: "S div np * np + S mod np = S" by simp
  have md: "0 \<le> S mod np" "S mod np < np" using assms(3) by simp_all
  have K1: "K * n \<le> Sr"
  proof -
    have "S div np * np \<le> S" using dm md by linarith
    then have "(of_int (S div np * np) :: rat) \<le> of_int S" by (simp only: of_int_le_iff)
    then show ?thesis by (simp add: K_def n_def Sr_def)
  qed
  have K2: "Sr + 1 \<le> (K + 1) * n"
  proof -
    have "(S div np + 1) * np = S div np * np + np" by (simp add: algebra_simps)
    then have "S + 1 \<le> (S div np + 1) * np" using dm md by linarith
    then have "(of_int (S + 1) :: rat) \<le> of_int ((S div np + 1) * np)"
      by (simp only: of_int_le_iff)
    then show ?thesis by (simp add: K_def n_def Sr_def)
  qed
  from fl64_grid[OF q0 q53] obtain k :: nat where
    f: "fl64 (Sr / n) = of_int (round_half_even (Sr / n * 2 ^ k)) / 2 ^ k" and
    d: "2 powi (52 - int k) \<le> Sr / n \<or> Sr / n < 2 powi (- 1022)" by blast
  define s :: rat where "s = 2 ^ k"
  define m where "m = round_half_even (Sr / n * s)"
  have s: "0 < s" by (simp add: s_def)
  have "\<not> Sr / n < 2 powi (- 1022)"
  proof -
    have "(2::rat) powi (- 1022) \<le> 2 powi (- 53)" by (intro power_int_increasing) auto
    also have "\<dots> = 1 / 2 ^ 53" by (simp add: power_int_minus field_simps)
    also have "\<dots> < 1 / n" using n n53 by (simp add: field_simps)
    also have "\<dots> \<le> Sr / n"
    proof -
      have "(of_int 1 :: rat) \<le> of_int S" using assms(1) by (simp only: of_int_le_iff)
      then show ?thesis using n by (simp add: Sr_def field_simps)
    qed
    finally show ?thesis by simp
  qed
  with d have "2 powi (52 - int k) \<le> Sr / n" by simp
  then have "2 ^ 52 / s \<le> Sr / n" by (simp add: power_int_diff s_def)
  then have "2 ^ 52 * n \<le> Sr * s" using n s by (simp add: field_simps)
  moreover have "Sr * s < 2 ^ 53 * s" using Sr53 s by (rule mult_strict_right_mono)
  ultimately have "2 ^ 52 * n < 2 ^ 53 * s" by (rule le_less_trans)
  then have ns: "n < 2 * s" by simp
  have lo: "of_int (S div np * 2 ^ k) \<le> Sr / n * s"
  proof -
    have "K \<le> Sr / n" using K1 n by (simp add: field_simps)
    then have "K * s \<le> Sr / n * s" using s by (intro mult_right_mono) auto
    then show ?thesis by (simp add: K_def s_def)
  qed
  from rhe_ge[OF this] have "(of_int (S div np * 2 ^ k) :: rat) \<le> of_int m"
    unfolding m_def by (simp only: of_int_le_iff)
  then have "K * s \<le> of_int m" by (simp add: K_def s_def)
  then have L: "K \<le> of_int m / s" using s by (simp add: field_simps)
  have "of_int m \<le> Sr / n * s + 1 / 2"
    using rhe_bounds[of "Sr / n * s"] unfolding m_def by linarith
  moreover have "Sr / n * s + 1 / 2 < (K + 1) * s"
  proof -
    have "Sr * s + n / 2 < (Sr + 1) * s" using ns by (simp add: algebra_simps)
    also have "\<dots> \<le> (K + 1) * n * s" using K2 s by (intro mult_right_mono) auto
    finally have "Sr * s + n / 2 < (K + 1) * s * n" by (simp add: mult.commute mult.left_commute)
    then show ?thesis using n by (simp add: field_simps)
  qed
  ultimately have "of_int m < (K + 1) * s" by linarith
  then have U: "of_int m / s < K + 1" using s by (simp add: field_simps)
  have "fl64 (of_int S / of_int np) = of_int m / s"
    using f by (simp add: m_def s_def Sr_def n_def)
  with L U show "of_int (S div np) \<le> fl64 (of_int S / of_int np)"
    and "fl64 (of_int S / of_int np) < of_int (S div np) + 1"
    by (simp_all add: K_def)
qed

section \<open>Properties of \<open>ScanNetSegData\<close>\<close>

lemma int_less_2_53: "(c::int) < 2 ^ 53 \<Longrightarrow> (of_int c :: rat) < 2 ^ 53"
proof -
  assume "c < 2 ^ 53"
  then have "(of_int c :: rat) < of_int (2 ^ 53)" by (simp only: of_int_less_iff)
  then show ?thesis by simp
qed

lemma trunc_nonneg: "0 \<le> y \<Longrightarrow> trunc y = \<lfloor>y\<rfloor>"
  by (simp add: trunc_def)

lemma div_le_self_int: "0 \<le> (S::int) \<Longrightarrow> 0 < d \<Longrightarrow> S div d \<le> S"
proof -
  assume a: "0 \<le> S" "0 < d"
  have "S div d * d + S mod d = S" by simp
  moreover have "0 \<le> S mod d" using a by simp
  moreover have "0 \<le> S div d" using a by (simp add: pos_imp_zdiv_nonneg_iff)
  then have "S div d * 1 \<le> S div d * d" using a by (intro mult_left_mono) auto
  ultimately show ?thesis by linarith
qed

lemma quotient_trunc:
  assumes "0 \<le> S" "S < 2 ^ 53" "0 < np" "np < 2 ^ 53"
  shows "round_f64 (of_int S / of_int np) = Fin (fl64 (of_int S / of_int np))
      \<and> trunc (fl64 (of_int S / of_int np)) = S div np"
proof (cases "S = 0")
  case True
  then show ?thesis by (simp add: round_f64_def fl64_def trunc_def)
next
  case False
  with assms(1) have S0: "0 < S" by simp
  note b = fl64_quotient_floor[OF S0 assms(2) assms(3,4)]
  have d0: "0 \<le> S div np" using assms(1,3) by (simp add: pos_imp_zdiv_nonneg_iff)
  have "S div np \<le> S" using assms(1,3) by (rule div_le_self_int)
  with assms(2) have "S div np + 1 \<le> 2 ^ 53" by simp
  then have "(of_int (S div np + 1) :: rat) \<le> of_int (2 ^ 53)"
    by (simp only: of_int_le_iff)
  then have "(of_int (S div np) :: rat) + 1 \<le> 2 ^ 53" by simp
  with b(2) have "fl64 (of_int S / of_int np) < 2 ^ 53" by linarith
  also have "\<dots> < (2::rat) ^ 1024" by (intro power_strict_increasing) auto
  finally have lt: "fl64 (of_int S / of_int np) < 2 ^ 1024" .
  have ge: "0 \<le> fl64 (of_int S / of_int np)"
  proof -
    have "(0::rat) \<le> of_int (S div np)" using d0 by simp
    with b(1) show ?thesis by linarith
  qed
  have "\<lfloor>fl64 (of_int S / of_int np)\<rfloor> = S div np"
    using b by (intro floor_unique) auto
  with round_f64_small[OF ge lt] ge show ?thesis by (simp add: trunc_nonneg)
qed

lemma get_num_iter_exact:
  assumes "0 < n_points" "n_points < 2 ^ 53" "int (sum_list ns) < 2 ^ 53"
  shows "get_num_iter ns n_points = Inr (int (sum_list ns) div n_points)"
proof -
  define S where "S = int (sum_list ns)"
  have S0: "0 \<le> S" and S53: "S < 2 ^ 53" using assms(3) by (simp_all add: S_def)
  have np: "f64_of_int n_points = Fin (of_int n_points)"
    using assms by (intro f64_of_int_exact) auto
  have S: "f64_of_int S = Fin (of_int S)"
    using S0 S53 by (intro f64_of_int_exact) auto
  have nz: "(of_int n_points :: rat) \<noteq> 0" using assms(1) by simp
  from quotient_trunc[OF S0 S53 assms(1,2)] nz
  have "ebind (py_float n_points) (\<lambda>d. py_int (f64_div (f64_of_int S) d)) = Inr (S div n_points)"
    by (simp add: py_float_def np S ebind_def)
  then show ?thesis by (simp add: get_num_iter_def S_def)
qed

lemma sample_prob_exact:
  assumes "n \<le> S" "0 < S" "int S < 2 ^ 53"
  shows "f64_div (f64_of_int (int n)) (f64_of_int (int S)) = Fin (fl64 (of_nat n / of_nat S))"
    and "0 \<le> fl64 (of_nat n / of_nat S)" and "fl64 (of_nat n / of_nat S) \<le> 1"
proof -
  have n: "f64_of_int (int n) = Fin (of_nat n)"
    using f64_of_int_exact[of "int n"] assms by simp
  have S: "f64_of_int (int S) = Fin (of_nat S)"
    using f64_of_int_exact[of "int S"] assms by simp
  have q: "(0::rat) \<le> of_nat n / of_nat S" "(of_nat n :: rat) / of_nat S \<le> of_int 1"
    using assms by (simp_all add: field_simps)
  from fl64_le_int[OF q] show "0 \<le> fl64 (of_nat n / of_nat S)" "fl64 (of_nat n / of_nat S) \<le> 1"
    by simp_all
  from round_f64_le_int[OF q] assms(2)
  show "f64_div (f64_of_int (int n)) (f64_of_int (int S)) = Fin (fl64 (of_nat n / of_nat S))"
    by (simp add: n S)
qed

lemma scaled_prob_exact:
  assumes "0 \<le> p" "p \<le> 1" "0 \<le> k" "k < 2 ^ 53"
  shows "py_round (f64_mul (Fin p) (f64_of_int k)) = Inr (round_half_even (fl64 (p * of_int k)))"
proof -
  have k: "f64_of_int k = Fin (of_int k)" using assms by (intro f64_of_int_exact) auto
  have "p * of_int k \<le> 1 * of_int k" using assms by (intro mult_right_mono) auto
  then have q: "0 \<le> p * of_int k" "p * of_int k \<le> of_int k" using assms by simp_all
  from round_f64_le_int[OF q assms(4)] show ?thesis by (simp add: k)
qed

lemma extend_scene_idxs_closed:
  assumes "\<And>i. i \<in> set idxs \<Longrightarrow> py_round (f64_mul (sp ! i) (f64_of_int ni)) = Inr (kf i)"
  shows "extend_scene_idxs sp ni idxs acc =
           Inr (acc @ concat (map (\<lambda>i. replicate (nat (kf i)) (int i)) idxs))"
  using assms by (induction idxs arbitrary: acc) auto

lemma extend_scene_idxs_Inr:
  assumes "extend_scene_idxs sp ni idxs acc = Inr r"
  shows "\<exists>kf. r = acc @ concat (map (\<lambda>i. replicate (kf i) (int i)) idxs)"
proof -
  define kf where "kf i = (case py_round (f64_mul (sp ! i) (f64_of_int ni)) of
                            Inr k \<Rightarrow> nat k | Inl e \<Rightarrow> 0)" for i
  from assms have "r = acc @ concat (map (\<lambda>i. replicate (kf i) (int i)) idxs)"
  proof (induction idxs arbitrary: acc)
    case Nil
    then show ?case by simp
  next
    case (Cons a idxs)
    from Cons.prems obtain k where
      k: "py_round (f64_mul (sp ! a) (f64_of_int ni)) = Inr k" and
      e: "extend_scene_idxs sp ni idxs (acc @ replicate (nat k) (int a)) = Inr r"
      by (auto split: sum.splits)
    from Cons.IH[OF e] k show ?case by (simp add: kf_def)
  qed
  then show ?thesis by blast
qed

lemma set_concat_replicate:
  "set (concat (map (\<lambda>i. replicate (kf i) (int i)) idxs)) \<subseteq> int ` set idxs"
  by (induction idxs) auto

lemma sorted_concat_replicate:
  "sorted idxs \<Longrightarrow> sorted (concat (map (\<lambda>i. replicate (kf i) (int i)) idxs))"
proof (induction idxs)
  case Nil
  then show ?case by simp
next
  case (Cons a idxs)
  have "\<forall>v\<in>set (concat (map (\<lambda>i. replicate (kf i) (int i)) idxs)). int a \<le> v"
    using set_concat_replicate[of kf idxs] Cons.prems by auto
  with Cons show ?case by (auto simp: sorted_append)
qed

lemma astype_int32_id: "0 \<le> v \<Longrightarrow> v < 2 ^ 31 \<Longrightarrow> astype_int32 v = v"
  by (simp add: astype_int32_def)

lemma map_astype_int32_id:
  "\<forall>v\<in>set r. 0 \<le> v \<and> v < 2 ^ 31 \<Longrightarrow> map astype_int32 r = r"
  by (induction r) (auto simp: astype_int32_id)

lemma resample_scene_idxs_Inr:
  assumes "resample_scene_idxs ns n_points n = Inr idxs" and "int n \<le> 2 ^ 31"
  shows "sorted idxs \<and> (\<forall>v\<in>set idxs. 0 \<le> v \<and> v < int n)"
proof -
  from assms(1) obtain sp ni r where
    e: "extend_scene_idxs sp ni [0..<n] [] = Inr r" and i: "idxs = map astype_int32 r"
    by (auto simp: resample_scene_idxs_def Let_def ebind_def split: sum.splits)
  from extend_scene_idxs_Inr[OF e] obtain kf where
    r: "r = concat (map (\<lambda>i. replicate (kf i) (int i)) [0..<n])" by auto
  have s: "sorted r" unfolding r by (rule sorted_concat_replicate) simp
  have b: "\<forall>v\<in>set r. 0 \<le> v \<and> v < int n"
    using set_concat_replicate[of kf "[0..<n]"] unfolding r by auto
  with assms(2) have "\<forall>v\<in>set r. 0 \<le> v \<and> v < 2 ^ 31" by auto
  from map_astype_int32_id[OF this] i s b show ?thesis by simp
qed

lemma resample_scene_idxs_closed:
  assumes "0 < n_points" "n_points < 2 ^ 53" "0 < sum_list ns" "int (sum_list ns) < 2 ^ 53"
    and "int (length ns) \<le> 2 ^ 31"
  shows "resample_scene_idxs ns n_points (length ns) =
     Inr (concat (map
       (\<lambda>i. replicate
              (nat (round_half_even
                 (fl64 (fl64 (of_nat (ns ! i) / of_nat (sum_list ns))
                          * of_int (int (sum_list ns) div n_points)))))
              (int i))
       [0..<length ns]))"
proof -
  let ?S = "sum_list ns"
  let ?ni = "int ?S div n_points"
  let ?sp = "map (\<lambda>n. f64_div (f64_of_int (int n)) (f64_of_int (int ?S))) ns"
  let ?kf = "\<lambda>i. round_half_even (fl64 (fl64 (of_nat (ns ! i) / of_nat ?S) * of_int ?ni))"
  have ni0: "0 \<le> ?ni" using assms(1) by (simp add: pos_imp_zdiv_nonneg_iff)
  have "?ni \<le> int ?S" using assms(1) by (intro div_le_self_int) auto
  with assms(4) have ni53: "?ni < 2 ^ 53" by simp
  have step: "py_round (f64_mul (?sp ! i) (f64_of_int ?ni)) = Inr (?kf i)"
    if "i \<in> set [0..<length ns]" for i
  proof -
    from that have i: "i < length ns" by simp
    then have "ns ! i \<le> ?S" by (simp add: member_le_sum_list)
    note p = sample_prob_exact[OF this assms(3,4)]
    from scaled_prob_exact[OF p(2,3) ni0 ni53] i p(1) show ?thesis by simp
  qed
  have e: "extend_scene_idxs ?sp ?ni [0..<length ns] [] =
             Inr (concat (map (\<lambda>i. replicate (nat (?kf i)) (int i)) [0..<length ns]))"
    using extend_scene_idxs_closed[of "[0..<length ns]" ?sp ?ni ?kf "[]"] step by simp
  have "\<forall>v\<in>set (concat (map (\<lambda>i. replicate (nat (?kf i)) (int i)) [0..<length ns])).
          0 \<le> v \<and> v < 2 ^ 31"
    using set_concat_replicate[of "\<lambda>i. nat (?kf i)" "[0..<length ns]"] assms(5) by auto
  from map_astype_int32_id[OF this] e get_num_iter_exact[OF assms(1,2,4)]
  show ?thesis by (simp add: resample_scene_idxs_def Let_def ebind_def)
qed

lemma emap_Inr_map: "(\<And>v. v \<in> set xs \<Longrightarrow> f v = Inr (g v)) \<Longrightarrow> emap f xs = Inr (map g xs)"
  by (induction xs) auto

lemma emap_Inl_all:
  assumes "\<And>v e. v \<in> set xs \<Longrightarrow> f v = Inl e \<Longrightarrow> e = e0"
    and "\<exists>v\<in>set xs. \<exists>e. f v = Inl e"
  shows "emap f xs = Inl e0"
  using assms
proof (induction xs)
  case Nil
  then show ?case by simp
next
  case (Cons a xs)
  show ?case
  proof (cases "f a")
    case (Inl e)
    with Cons.prems(1)[of a e] show ?thesis by simp
  next
    case (Inr y)
    with Cons.prems(2) have "\<exists>v\<in>set xs. \<exists>e. f v = Inl e" by auto
    with Cons.IH Cons.prems(1) have "emap f xs = Inl e0" by auto
    with Inr show ?thesis by simp
  qed
qed

lemma fill_cat_id2class_value:
  "fill_cat_id2class (enumerate_from 0 seg_cat_id_table)
       (map (\<lambda>_. 1 * int (length seg_cat_id_table)) (map int [0..<41]))
     = Inr (map (\<lambda>v. case list_index seg_cat_id_table v of Inr i \<Rightarrow> int i | Inl e \<Rightarrow> 20)
              (map int [0..<41]))"
  by code_simp

lemma seg_init_tables:
  assumes "ScanNetSegData_init ops x rp ann sp np lwf s = Inr self"
  shows "seg_cat_ids self = seg_cat_id_table" "ignore_index self = 20"
    "cat_id2class self =
       map (\<lambda>v. case list_index seg_cat_id_table v of Inr i \<Rightarrow> int i | Inl e \<Rightarrow> 20)
         (map int [0..<41])"
    "num_points self = np" "data_root self = rp"
    "label_weight_func self = (case lwf of None \<Rightarrow> default_label_weight_func ops | Some f \<Rightarrow> f)"
    "mmcv_load x ann s = Inr (data_infos self)"
proof -
  from assms obtain infos where l: "mmcv_load x ann s = Inr infos"
    by (cases "mmcv_load x ann s") (auto simp: ScanNetSegData_init_def ebind_def)
  from assms have self: "self = \<lparr>data_root = rp, data_infos = infos, seg_split = sp,
               num_points = np, all_ids = map int [0..<41], seg_cat_ids = seg_cat_id_table,
               ignore_index = length seg_cat_id_table,
               cat_id2class = map (\<lambda>v. case list_index seg_cat_id_table v of
                                          Inr i \<Rightarrow> int i | Inl e \<Rightarrow> 20) (map int [0..<41]),
               label_weight_func =
                 (case lwf of None \<Rightarrow> default_label_weight_func ops | Some f \<Rightarrow> f)\<rparr>"
    by (simp only: ScanNetSegData_init_def l ebind_Inr Let_def fill_cat_id2class_value)
       simp
  show "seg_cat_ids self = seg_cat_id_table" "ignore_index self = 20"
    "cat_id2class self =
       map (\<lambda>v. case list_index seg_cat_id_table v of Inr i \<Rightarrow> int i | Inl e \<Rightarrow> 20)
         (map int [0..<41])"
    "num_points self = np" "data_root self = rp"
    "label_weight_func self = (case lwf of None \<Rightarrow> default_label_weight_func ops | Some f \<Rightarrow> f)"
    "mmcv_load x ann s = Inr (data_infos self)"
    by (simp_all add: self l seg_cat_id_table_def)
qed

lemma np_getitem_Inl: "np_getitem a k = Inl e \<Longrightarrow> e = IndexError"
  by (auto simp: np_getitem_def Let_def split: if_splits)

text \<open>
  C4, as the code has it: for a mask whose raw ids all lie in 0..40, the entries with id 0
  are discarded and every remaining id is mapped to its position in the table of 20
  segmentation ids, or to the ignore index 20, the size of the table, when it is not in the
  table. A mask with an id above 40 is not mapped: the lookup raises \<open>IndexError\<close>.
\<close>

theorem convert_to_label_ids:
  assumes "ScanNetSegData_init ops x rp ann sp np lwf s0 = Inr self"
  shows "((\<forall>v\<in>set ids. 0 \<le> v \<and> v \<le> 40) \<longrightarrow>
            convert_to_label x self (MaskArr (IntVec ids)) s =
              Inr (map (\<lambda>v. case list_index (seg_cat_ids self) v of
                              Inr i \<Rightarrow> int i | Inl e \<Rightarrow> int (ignore_index self))
                     (filter (\<lambda>v. v \<noteq> 0) ids)))
       \<and> ((\<exists>v\<in>set ids. 40 < v) \<longrightarrow>
            convert_to_label x self (MaskArr (IntVec ids)) s = Inl IndexError)
       \<and> ignore_index self = 20 \<and> length (seg_cat_ids self) = 20"
proof -
  note t = seg_init_tables[OF assms]
  let ?g = "\<lambda>v. case list_index seg_cat_id_table v of Inr i \<Rightarrow> int i | Inl e \<Rightarrow> 20"
  have len: "length (cat_id2class self) = 41" by (simp add: t)
  have c: "convert_to_label x self (MaskArr (IntVec ids)) s =
             emap (np_getitem (cat_id2class self)) (filter (\<lambda>v. v \<noteq> 0) ids)"
    by (simp add: convert_to_label_def ebind_def)
  have one: "emap (np_getitem (cat_id2class self)) (filter (\<lambda>v. v \<noteq> 0) ids) =
               Inr (map ?g (filter (\<lambda>v. v \<noteq> 0) ids))"
    if r: "\<forall>v\<in>set ids. 0 \<le> v \<and> v \<le> 40"
  proof (rule emap_Inr_map)
    fix v assume "v \<in> set (filter (\<lambda>v. v \<noteq> 0) ids)"
    with r have v: "0 \<le> v" "v \<le> 40" by auto
    then have "nat v < 41" by simp
    then have "cat_id2class self ! nat v = ?g (int (nat v))"
      unfolding t(3) by (simp del: upt_Suc)
    with v show "np_getitem (cat_id2class self) v = Inr (?g v)"
      by (simp add: np_getitem_def len)
  qed
  have two: "emap (np_getitem (cat_id2class self)) (filter (\<lambda>v. v \<noteq> 0) ids) = Inl IndexError"
    if r: "\<exists>v\<in>set ids. 40 < v"
  proof (rule emap_Inl_all)
    fix v e assume "np_getitem (cat_id2class self) v = Inl e"
    then show "e = IndexError" by (rule np_getitem_Inl)
  next
    from r obtain v where "v \<in> set ids" "40 < v" by blast
    then have "v \<in> set (filter (\<lambda>v. v \<noteq> 0) ids)"
      and "np_getitem (cat_id2class self) v = Inl IndexError"
      by (auto simp: np_getitem_def len)
    then show "\<exists>v\<in>set (filter (\<lambda>v. v \<noteq> 0) ids). \<exists>e. np_getitem (cat_id2class self) v = Inl e"
      by blast
  qed
  from one two c show ?thesis by (simp add: t seg_cat_id_table_def)
qed


lemma np_histogram_length: "length (np_histogram a edges) = length edges - 1"
  by (simp add: np_histogram_def)

lemma scan_scenes_Inr:
  assumes "scan_scenes x self s infos (ns0, h0) = Inr (ns, h)"
    and "length (seg_cat_ids self) = 20" and "length h0 = 21"
  shows "length h = 21 \<and>
         (\<exists>labels. emap (\<lambda>d. convert_to_label x self
                       (MaskPath (osp_join (data_root self) [pts_semantic_mask_path d])) s) infos
                     = Inr labels \<and> ns = ns0 @ map length labels)"
  using assms(1,3)
proof (induction infos arbitrary: ns0 h0)
  case Nil
  then show ?case by simp
next
  case (Cons d infos)
  from Cons.prems(1) obtain label where
    l: "convert_to_label x self (MaskPath (osp_join (data_root self) [pts_semantic_mask_path d])) s
          = Inr label"
    by (auto split: sum.splits)
  let ?h1 = "map (\<lambda>(w, c). f64_add w (f64_of_int c))
               (zip h0 (np_histogram label (map int [0..<length (seg_cat_ids self) + 2])))"
  from Cons.prems(1) l
  have r: "scan_scenes x self s infos (ns0 @ [length label], ?h1) = Inr (ns, h)"
    by (simp add: Let_def)
  have "length ?h1 = 21" using Cons.prems(2) assms(2) by (simp add: np_histogram_length)
  from Cons.IH[OF r this] l show ?case by auto
qed

text \<open>
  C10: the scene indices returned by \<open>get_scene_idxs_and_label_weight\<close> are in nondecreasing
  order, and each of them is at least 0 and less than the number of info records (for at
  most \<open>2\<^sup>3\<^sup>1\<close> records, the range of the final cast to 32 bits).
\<close>

theorem scene_idxs_sorted:
  assumes "get_scene_idxs_and_label_weight ops x self s = Inr (scene_idxs, w)"
    and "int (length (data_infos self)) \<le> 2 ^ 31"
  shows "sorted scene_idxs \<and> (\<forall>v\<in>set scene_idxs. 0 \<le> v \<and> v < int (length (data_infos self)))"
proof -
  from assms(1) obtain ns where
    "resample_scene_idxs ns (num_points self) (length (data_infos self)) = Inr scene_idxs"
    by (auto simp: get_scene_idxs_and_label_weight_def Let_def ebind_def split: sum.splits)
  from resample_scene_idxs_Inr[OF this assms(2)] show ?thesis .
qed

lemma round_f64_one: "round_f64 1 = Fin 1"
  using f64_of_int_exact[of 1] by (simp add: f64_of_int_def)

text \<open>
  C2: let \<open>ns\<close> be the per-scene counts of points left after the zero ids are removed, with a
  positive sum below \<open>2\<^sup>5\<^sup>3\<close>, and \<open>np\<close> the positive number of points per sample. Then the
  number of iterations is \<open>sum ns div np\<close>, the floor of the quotient, and the scene indices
  are, for \<open>i = 0, ..., m - 1\<close> in this order, the index \<open>i\<close> repeated
  \<open>round ((ns ! i / sum ns) * num_iter)\<close> times, the division and the product being the
  float64 ones and \<open>round\<close> Python's. For the counts 100, 300, 600 and 100 points per
  sample there are 10 iterations and the indices are 0 once, 1 three times and 2 six times.
\<close>

theorem scene_idxs_counts:
  assumes "ScanNetSegData_init ops x rp ann sp np lwf s0 = Inr self"
    and "scan_scenes x self s (data_infos self) ([], replicate 21 (Fin 0)) = Inr (ns, hist)"
    and "0 < np" and "np < 2 ^ 53"
    and "0 < sum_list ns" and "int (sum_list ns) < 2 ^ 53"
    and "int (length (data_infos self)) \<le> 2 ^ 31"
  shows "(\<exists>labels. emap (\<lambda>d. convert_to_label x self
                       (MaskPath (osp_join (data_root self) [pts_semantic_mask_path d])) s)
                    (data_infos self) = Inr labels \<and> ns = map length labels)
     \<and> get_num_iter ns np = Inr (int (sum_list ns) div np)
     \<and> (\<exists>w. get_scene_idxs_and_label_weight ops x self s =
              Inr (concat (map
                     (\<lambda>i. replicate
                            (nat (round_half_even
                               (fl64 (fl64 (of_nat (ns ! i) / of_nat (sum_list ns))
                                        * of_int (int (sum_list ns) div np)))))
                            (int i))
                     [0..<length (data_infos self)]), w))
     \<and> get_num_iter [100, 300, 600] 100 = Inr 10
     \<and> resample_scene_idxs [100, 300, 600] 100 3 = Inr [0, 1, 1, 1, 2, 2, 2, 2, 2, 2]"
proof -
  note t = seg_init_tables[OF assms(1)]
  have n20: "length (seg_cat_ids self) = 20" by (simp add: t seg_cat_id_table_def)
  from scan_scenes_Inr[OF assms(2) n20] obtain labels where
    l: "emap (\<lambda>d. convert_to_label x self
                  (MaskPath (osp_join (data_root self) [pts_semantic_mask_path d])) s)
          (data_infos self) = Inr labels" and ns: "ns = map length labels"
    by auto
  from emap_length[OF l] ns have len: "length ns = length (data_infos self)" by simp
  have r: "resample_scene_idxs ns np (length ns) = Inr (concat (map
       (\<lambda>i. replicate
              (nat (round_half_even
                 (fl64 (fl64 (of_nat (ns ! i) / of_nat (sum_list ns))
                          * of_int (int (sum_list ns) div np)))))
              (int i))
       [0..<length ns]))"
    by (rule resample_scene_idxs_closed) (use assms len in auto)
  have "\<exists>w. get_scene_idxs_and_label_weight ops x self s =
              Inr (concat (map
                     (\<lambda>i. replicate
                            (nat (round_half_even
                               (fl64 (fl64 (of_nat (ns ! i) / of_nat (sum_list ns))
                                        * of_int (int (sum_list ns) div np)))))
                            (int i))
                     [0..<length (data_infos self)]), w)"
  proof -
    have "length (seg_cat_ids self) + 1 = 21" using n20 by simp
    then have sc: "scan_scenes x self s (data_infos self)
                ([], replicate (length (seg_cat_ids self) + 1) (Fin 0)) = Inr (ns, hist)"
      using assms(2) by (simp only:)
    show ?thesis
      unfolding get_scene_idxs_and_label_weight_def Let_def sc ebind_Inr
      using r by (simp add: t(4) len ebind_def)
  qed
  moreover have "get_num_iter [100, 300, 600] 100 = Inr 10" by code_simp
  moreover have "resample_scene_idxs [100, 300, 600] 100 3 = Inr [0, 1, 1, 1, 2, 2, 2, 2, 2, 2]"
    by code_simp
  ultimately show ?thesis
    using l ns get_num_iter_exact[OF assms(3,4,6)] by blast
qed

lemma seg_table_range:
  "list_all (\<lambda>v. 0 \<le> v \<and> v \<le> 20)
     (map (\<lambda>v. case list_index seg_cat_id_table v of Inr i \<Rightarrow> int i | Inl e \<Rightarrow> 20)
        (map int [0..<41]))"
  by code_simp

lemma emap_np_getitem_set: "emap (np_getitem a) ks = Inr r \<Longrightarrow> set r \<subseteq> set a"
proof (induction ks arbitrary: r)
  case Nil
  then show ?case by simp
next
  case (Cons k ks)
  from Cons.prems obtain v vs where v: "np_getitem a k = Inr v" and vs: "emap (np_getitem a) ks = Inr vs"
    and r: "r = v # vs" by (auto split: sum.splits)
  from v have "v \<in> set a" by (auto simp: np_getitem_def Let_def split: if_splits)
  with Cons.IH[OF vs] r show ?case by simp
qed

lemma convert_to_label_range:
  assumes "ScanNetSegData_init ops x rp ann sp np lwf s0 = Inr self"
    and "convert_to_label x self m s = Inr label"
  shows "\<forall>v\<in>set label. 0 \<le> v \<and> v \<le> 20"
proof -
  from assms(2) obtain a where "take_indices (cat_id2class self) a = Inr label"
    by (auto simp: convert_to_label_def ebind_def split: sum.splits)
  then have "set label \<subseteq> set (cat_id2class self)"
    by (cases a) (auto dest: emap_np_getitem_set)
  with seg_table_range show ?thesis
    unfolding seg_init_tables(3)[OF assms(1)] list_all_iff by blast
qed

lemma np_histogram_counts:
  assumes "\<forall>v\<in>set label. 0 \<le> v \<and> v \<le> 20"
  shows "np_histogram label (map int [0..<22]) =
           map (\<lambda>j. int (length (filter (\<lambda>v. v = int j) label))) [0..<21]"
proof -
  have "filter (\<lambda>v. map int [0..<22] ! j \<le> v \<and>
                     (if j + 2 = length (map int [0..<22]) then v \<le> map int [0..<22] ! (j + 1)
                      else v < map int [0..<22] ! (j + 1))) label
        = filter (\<lambda>v. v = int j) label" if "j \<in> set [0..<21]" for j
  proof (rule filter_cong[OF refl])
    fix v assume "v \<in> set label"
    with assms have v: "v \<le> 20" by blast
    from that have j: "j < 21" by simp
    then have n: "map int [0..<22] ! j = int j" "map int [0..<22] ! (j + 1) = int j + 1"
      by (simp_all del: upt_Suc add: nth_map_upt)
    show "(map int [0..<22] ! j \<le> v \<and>
            (if j + 2 = length (map int [0..<22]) then v \<le> map int [0..<22] ! (j + 1)
             else v < map int [0..<22] ! (j + 1))) = (v = int j)"
      unfolding n using v j by auto
  qed
  then show ?thesis unfolding np_histogram_def by (simp del: upt_Suc cong: map_cong)
qed

lemma f64_add_counts:
  assumes "int (a + c) < 2 ^ 53"
  shows "f64_add (Fin (of_nat a)) (f64_of_int (int c)) = Fin (of_nat (a + c))"
proof -
  have c: "f64_of_int (int c) = Fin (of_nat c)"
    using f64_of_int_exact[of "int c"] assms by simp
  have "f64_of_int (int (a + c)) = Fin (of_nat (a + c))"
    using f64_of_int_exact[of "int (a + c)"] assms by simp
  then have "round_f64 (of_nat a + of_nat c) = Fin (of_nat a + of_nat c)"
    by (simp add: f64_of_int_def)
  with c show ?thesis by simp
qed

lemma scan_scenes_histogram:
  assumes init: "ScanNetSegData_init ops x rp ann sp np lwf s0 = Inr self"
    and "scan_scenes x self s infos (ns0, h0) = Inr (ns, h)"
    and "h0 = map (\<lambda>j. Fin (of_nat (length (filter (\<lambda>v. v = int j) seen)))) [0..<21]"
    and "emap (\<lambda>d. convert_to_label x self
                 (MaskPath (osp_join (data_root self) [pts_semantic_mask_path d])) s) infos
           = Inr labels"
    and "int (length seen + length (concat labels)) < 2 ^ 53"
  shows "h = map (\<lambda>j. Fin (of_nat (length (filter (\<lambda>v. v = int j) (seen @ concat labels)))))
               [0..<21]"
  using assms(2-)
proof (induction infos arbitrary: ns0 h0 seen labels)
  case Nil
  then show ?case by simp
next
  case (Cons d infos)
  from Cons.prems(3) obtain label rest where
    l: "convert_to_label x self (MaskPath (osp_join (data_root self) [pts_semantic_mask_path d])) s
          = Inr label" and
    rest: "emap (\<lambda>d. convert_to_label x self
                 (MaskPath (osp_join (data_root self) [pts_semantic_mask_path d])) s) infos
           = Inr rest" and labels: "labels = label # rest"
    by (auto split: sum.splits)
  have n20: "length (seg_cat_ids self) = 20"
    by (simp add: seg_init_tables[OF init] seg_cat_id_table_def)
  have n22: "length (seg_cat_ids self) + 2 = 22" using n20 by simp
  let ?h1 = "map (\<lambda>(w, c). f64_add w (f64_of_int c))
               (zip h0 (np_histogram label (map int [0..<22])))"
  from Cons.prems(1) l
  have r: "scan_scenes x self s infos (ns0 @ [length label], ?h1) = Inr (ns, h)"
    by (simp add: Let_def n20 del: upt_Suc)
  have bound: "int (length seen + length label) < 2 ^ 53"
    using Cons.prems(4) labels by simp
  have h1: "?h1 = map (\<lambda>j. Fin (of_nat (length (filter (\<lambda>v. v = int j) (seen @ label)))))
                    [0..<21]"
  proof (rule nth_equalityI)
    show "length ?h1 = length (map (\<lambda>j. Fin (of_nat (length (filter (\<lambda>v. v = int j)
                                 (seen @ label))))) [0..<21])"
      by (simp add: Cons.prems(2) np_histogram_length del: upt_Suc)
  next
    fix j assume "j < length ?h1"
    then have j: "j < 21" by (simp add: Cons.prems(2) np_histogram_length del: upt_Suc)
    have le: "length (filter (\<lambda>v. v = int j) seen) + length (filter (\<lambda>v. v = int j) label)
                \<le> length seen + length label"
      by (simp add: add_mono)
    with bound have b: "int (length (filter (\<lambda>v. v = int j) seen)
                            + length (filter (\<lambda>v. v = int j) label)) < 2 ^ 53"
      by linarith
    from j show "?h1 ! j = map (\<lambda>j. Fin (of_nat (length (filter (\<lambda>v. v = int j)
                                 (seen @ label))))) [0..<21] ! j"
      unfolding np_histogram_counts[OF convert_to_label_range[OF init l]] Cons.prems(2)
      by (simp add: f64_add_counts[OF b] del: upt_Suc)
  qed
  have "int (length (seen @ label) + length (concat rest)) < 2 ^ 53"
    using Cons.prems(4) labels by simp
  from Cons.IH[OF r h1 rest this] labels show ?case by simp
qed

text \<open>
  C3: the returned weights come from the histogram of 21 bins accumulated over the scenes
  (bin \<open>j\<close> counts the points of class index \<open>j\<close>, exactly so below \<open>2\<^sup>5\<^sup>3\<close> points): its
  last entry (the ignore bucket) is dropped, the remaining 20 entries are cast to float32 and divided
  by their own sum, and the label weighting function is applied to the result, which is
  cast to float32. Without a custom function this is \<open>1 / log (1.2 + freq)\<close> on every
  element; with one that acts on every element it is that function on every element. In
  both cases the result has length 20.
\<close>

theorem label_weight_from_histogram:
  assumes "ScanNetSegData_init ops x rp ann sp np lwf s0 = Inr self"
    and "get_scene_idxs_and_label_weight ops x self s = Inr (scene_idxs, w)"
  shows "\<exists>ns hist labels.
     scan_scenes x self s (data_infos self) ([], replicate 21 (Fin 0)) = Inr (ns, hist) \<and>
     length hist = 21 \<and>
     emap (\<lambda>d. convert_to_label x self
              (MaskPath (osp_join (data_root self) [pts_semantic_mask_path d])) s)
       (data_infos self) = Inr labels \<and>
     ns = map length labels \<and>
     (int (sum_list ns) < 2 ^ 53 \<longrightarrow>
        hist = map (\<lambda>j. Fin (of_nat (length (filter (\<lambda>v. v = int j) (concat labels)))))
                 [0..<21]) \<and>
     (let c = map (f32_of_f64 ops) (butlast hist);
          freq = map (\<lambda>e. f32_div ops e (f32_sum ops c)) c
      in length freq = 20 \<and>
         w = map (f32_astype ops) (label_weight_func self freq) \<and>
         (lwf = None \<longrightarrow>
            w = map (\<lambda>e. f32_astype ops
                        (f32_rdiv_py ops (Fin 1)
                           (f32_log ops (f32_add_py ops (round_f64 (6 / 5)) e)))) freq
            \<and> length w = 20) \<and>
         (\<forall>g. lwf = Some (map g) \<longrightarrow>
            w = map (\<lambda>e. f32_astype ops (g e)) freq \<and> length w = 20))"
proof -
  note t = seg_init_tables[OF assms(1)]
  have n20: "length (seg_cat_ids self) = 20" by (simp add: t seg_cat_id_table_def)
  have e21: "length (seg_cat_ids self) + 1 = 21" using n20 by simp
  from assms(2) have "ebind (scan_scenes x self s (data_infos self) ([], replicate 21 (Fin 0)))
      (\<lambda>(num_point_all, label_weight).
         ebind (resample_scene_idxs num_point_all (num_points self) (length (data_infos self)))
           (\<lambda>scene_idxs. Inr (scene_idxs, compute_label_weight ops self label_weight)))
      = Inr (scene_idxs, w)"
    unfolding get_scene_idxs_and_label_weight_def Let_def e21 .
  then obtain ns hist where
    sc: "scan_scenes x self s (data_infos self) ([], replicate 21 (Fin 0)) = Inr (ns, hist)" and
    w: "w = compute_label_weight ops self hist"
    by (cases "scan_scenes x self s (data_infos self) ([], replicate 21 (Fin 0))")
       (auto simp: ebind_def split: sum.splits)
  from scan_scenes_Inr[OF sc n20] obtain labels where lh: "length hist = 21" and
    l: "emap (\<lambda>d. convert_to_label x self
              (MaskPath (osp_join (data_root self) [pts_semantic_mask_path d])) s)
       (data_infos self) = Inr labels" and ns: "ns = map length labels"
    by auto
  have hc: "hist = map (\<lambda>j. Fin (of_nat (length (filter (\<lambda>v. v = int j) (concat labels)))))
                 [0..<21]" if b: "int (sum_list ns) < 2 ^ 53"
  proof -
    have h0: "replicate 21 (Fin 0) =
                map (\<lambda>j. Fin (of_nat (length (filter (\<lambda>v. v = int j) [])))) [0..<21]"
      by (simp add: map_replicate_const del: upt_Suc)
    have "int (length ([]::int list) + length (concat labels)) < 2 ^ 53"
      using b by (simp add: ns length_concat)
    from scan_scenes_histogram[OF assms(1) sc h0 l this] show ?thesis by simp
  qed
  have bl: "slice_to_last hist = butlast hist" by (simp add: slice_to_last_def butlast_conv_take)
  define c where "c = map (f32_of_f64 ops) (butlast hist)"
  define freq where "freq = map (\<lambda>e. f32_div ops e (f32_sum ops c)) c"
  have lf: "length freq = 20" using lh by (simp add: freq_def c_def)
  have w1: "w = map (f32_astype ops) (label_weight_func self freq)"
    by (simp add: w compute_label_weight_def Let_def bl freq_def c_def)
  have d: "w = map (\<lambda>e. f32_astype ops
                        (f32_rdiv_py ops (Fin 1)
                           (f32_log ops (f32_add_py ops (round_f64 (6 / 5)) e)))) freq
            \<and> length w = 20" if "lwf = None"
    using that lf by (simp add: w1 t(6) default_label_weight_func_def round_f64_one)
  have g: "w = map (\<lambda>e. f32_astype ops (g e)) freq \<and> length w = 20" if "lwf = Some (map g)" for g
    using that lf by (simp add: w1 t(6))
  from sc lh l ns hc lf w1 d g show ?thesis
    unfolding Let_def freq_def c_def by blast
qed

section \<open>The small dataset, evaluated\<close>

lemma demo_init: "ScanNetData_init ext_none ''data'' ''train'' demo_fs = Inr demo_self"
  by code_simp

lemma demo_scene_00:
  "fst (process_single_scene ext_none demo_self True ''scene0000_00'' demo_fs) = Inr demo_info_00"
  by code_simp

lemma demo_scene_01:
  "fst (process_single_scene ext_none demo_self True ''scene0000_01'' demo_fs) = Inr demo_info_01"
  by code_simp

lemma demo_get_infos:
  "fst (get_infos ext_none demo_self 4 True None demo_fs) = Inr [demo_info_00, demo_info_01]"
  by code_simp

lemma demo_box_00:
  "get_box_label ext_none demo_self ''scene0000_00'' demo_fs = Inr (FloatMat demo_boxes_00)"
  by code_simp

lemma demo_box_01:
  "get_box_label ext_none demo_self ''scene0000_01'' demo_fs = Inr (FloatMat [])"
  by code_simp

lemma demo_box_02:
  "get_box_label ext_none demo_self ''scene0000_02'' demo_fs = Inr (FloatMat [[1, 2, 3, 4, 5, 6, 13]])"
  by code_simp

lemma demo_mmcv_load:
  "mmcv_load ext_none ''data/scannet_infos_train.pkl'' demo_seg_fs = Inr [demo_info_00, demo_info_01]"
  by code_simp

lemma demo_seg_init:
  "ScanNetSegData_init sym_ops ext_none ''data'' ''data/scannet_infos_train.pkl'' ''train'' 1 None
     demo_seg_fs = Inr demo_seg"
  by (simp only: ScanNetSegData_init_def demo_mmcv_load ebind_Inr Let_def fill_cat_id2class_value)
     (simp add: demo_seg_def seg_cat_id_table_def)

lemma demo_scan:
  "scan_scenes ext_none demo_seg demo_seg_fs (data_infos demo_seg) ([], replicate 21 (Fin 0))
     = Inr ([1, 1], demo_hist)"
  by code_simp

lemma demo_result:
  "get_scene_idxs_and_label_weight sym_ops ext_none demo_seg demo_seg_fs = Inr ([0, 1], demo_weight)"
  by code_simp

theorem unmapped_id_raises_witness:
  "ScanNetData_init ext_none ''data'' ''train'' demo_fs = Inr demo_self
   \<and> get_box_label ext_none demo_self ''scene0000_02'' demo_fs
       = Inr (FloatMat [[1, 2, 3, 4, 5, 6, 13]])
   \<and> last_col (FloatMat [[1, 2, 3, 4, 5, 6, 13]]) = Inr (FloatVec [13])
   \<and> (13::rat) \<notin> of_int ` set (cat_ids demo_self)
   \<and> load_annotations ext_none demo_self ''scene0000_02'' demo_fs = Inl KeyError
   \<and> fst (process_single_scene ext_none demo_self True ''scene0000_02'' demo_fs) = Inl KeyError
   \<and> fst (get_infos ext_none demo_self 4 True (Some [''scene0000_00'', ''scene0000_02'']) demo_fs)
       = Inl KeyError"
proof -
  have h3: "last_col (FloatMat [[1, 2, 3, 4, 5, 6, 13]]) = Inr (FloatVec [13])" by simp
  have h4': "(13::rat) \<notin> of_int ` set (cat_ids demo_self)"
    by (simp add: demo_self_def det_cat_ids_def)
  then have h4: "\<exists>v\<in>set (items (FloatVec [13])). v \<notin> of_int ` set (cat_ids demo_self)" by simp
  note c = unmapped_id_raises[OF demo_init demo_box_02 h3 h4,
      where ids = "[''scene0000_00'', ''scene0000_02'']" and nw = 4]
  have p: "fst (process_single_scene ext_none demo_self True ''scene0000_02'' demo_fs)
             = Inl KeyError" by code_simp
  have g: "fst (get_infos ext_none demo_self 4 True (Some [''scene0000_00'', ''scene0000_02''])
                  demo_fs) = Inl KeyError" by code_simp
  from c demo_init demo_box_02 h3 h4' p g show ?thesis by simp
qed

theorem annotation_arrays_witness:
  "ScanNetData_init ext_none ''data'' ''train'' demo_fs = Inr demo_self
   \<and> fst (process_single_scene ext_none demo_self True ''scene0000_00'' demo_fs) = Inr demo_info_00
   \<and> get_box_label ext_none demo_self ''scene0000_00'' demo_fs = Inr (FloatMat demo_boxes_00)
   \<and> length demo_boxes_00 = 2 \<and> list_all (\<lambda>r. length r = 7) demo_boxes_00
   \<and> annos demo_info_00 = Some
        [(''gt_num'', ACount 2),
         (''name'', ANames [''chair'', ''garbagebin'']),
         (''location'', AArr (FloatMat [[1, 2, 3], [1 / 2, 2, 3]])),
         (''dimensions'', AArr (FloatMat [[4, 5, 6], [4, 5, 6]])),
         (''gt_boxes_upright_depth'',
            AArr (FloatMat [[1, 2, 3, 4, 5, 6], [1 / 2, 2, 3, 4, 5, 6]])),
         (''index'', AArr (IntVec [0, 1])),
         (''class'', AArr (IntVec [2, 17]))]"
proof -
  have h2: "process_single_scene ext_none demo_self True ''scene0000_00'' demo_fs
      = (Inr demo_info_00, snd (process_single_scene ext_none demo_self True ''scene0000_00'' demo_fs))"
    using demo_scene_00 by (simp add: prod_eq_iff)
  have h4: "demo_boxes_00 \<noteq> []" by (simp add: demo_boxes_00_def)
  have h5: "\<forall>r\<in>set demo_boxes_00. length r = 7" by (simp add: demo_boxes_00_def)
  note c = annotation_arrays[OF demo_init h2 demo_box_00 h4 h5]
  from c demo_init demo_scene_00 demo_box_00 show ?thesis
    by (auto simp: demo_boxes_00_def demo_info_00_def)
qed

theorem empty_scene_annotations_witness:
  "fst (process_single_scene ext_none demo_self True ''scene0000_01'' demo_fs) = Inr demo_info_01
   \<and> get_box_label ext_none demo_self ''scene0000_01'' demo_fs = Inr (FloatMat [])
   \<and> shape0 (FloatMat []) = 0
   \<and> annos demo_info_01 = Some [(''gt_num'', ACount 0)]"
proof -
  have h1: "process_single_scene ext_none demo_self True ''scene0000_01'' demo_fs
      = (Inr demo_info_01, snd (process_single_scene ext_none demo_self True ''scene0000_01'' demo_fs))"
    using demo_scene_01 by (simp add: prod_eq_iff)
  have h3: "shape0 (FloatMat []) = 0" by simp
  from empty_scene_annotations[OF h1 demo_box_01 h3] demo_scene_01 demo_box_01
  show ?thesis by simp
qed

theorem cat_id_roundtrip_witness:
  "ScanNetData_init ext_none ''data'' ''train'' demo_fs = Inr demo_self
   \<and> 13 < length (cat_ids demo_self)
   \<and> cat_ids demo_self ! 13 = 28
   \<and> dict_get (cat_ids2class demo_self) 28 = Inr 13
   \<and> dict_get (label2cat demo_self) 13 = Inr ''showercurtrain''"
proof -
  have h2: "13 < length (cat_ids demo_self)" by (simp add: demo_self_def det_cat_ids_def)
  have v: "cat_ids demo_self ! 13 = 28" "classes demo_self ! 13 = ''showercurtrain''"
    by (simp_all add: demo_self_def det_cat_ids_def det_classes_def)
  from cat_id_roundtrip[OF demo_init h2] demo_init h2 v show ?thesis by simp
qed

theorem get_infos_order_witness:
  "fst (get_infos ext_none demo_self 4 True None demo_fs) = Inr [demo_info_00, demo_info_01]
   \<and> map (\<lambda>i. lidar_idx (point_cloud i)) [demo_info_00, demo_info_01]
       = sample_id_list demo_self
   \<and> sample_id_list demo_self = [''scene0000_00'', ''scene0000_01'']"
proof -
  have h: "get_infos ext_none demo_self 4 True None demo_fs
      = (Inr [demo_info_00, demo_info_01], snd (get_infos ext_none demo_self 4 True None demo_fs))"
    using demo_get_infos by (simp add: prod_eq_iff)
  from get_infos_order[OF h] demo_get_infos show ?thesis by (simp add: demo_self_def)
qed

theorem scene_idxs_counts_witness:
  "ScanNetSegData_init sym_ops ext_none ''data'' ''data/scannet_infos_train.pkl'' ''train'' 1 None
     demo_seg_fs = Inr demo_seg
   \<and> scan_scenes ext_none demo_seg demo_seg_fs (data_infos demo_seg) ([], replicate 21 (Fin 0))
       = Inr ([1, 1], demo_hist)
   \<and> (0::int) < 1 \<and> (1::int) < 2 ^ 53 \<and> 0 < sum_list [1, 1::nat]
   \<and> int (sum_list [1, 1]) < 2 ^ 53 \<and> int (length (data_infos demo_seg)) \<le> 2 ^ 31
   \<and> get_num_iter [1, 1] 1 = Inr 2
   \<and> get_scene_idxs_and_label_weight sym_ops ext_none demo_seg demo_seg_fs
       = Inr ([0, 1], demo_weight)"
proof -
  have h3: "(0::int) < 1" and h4: "(1::int) < 2 ^ 53" by simp_all
  have h5: "0 < sum_list [1, 1::nat]" and h6: "int (sum_list [1, 1]) < 2 ^ 53" by simp_all
  have h7: "int (length (data_infos demo_seg)) \<le> 2 ^ 31" by (simp add: demo_seg_def)
  note c = scene_idxs_counts[OF demo_seg_init demo_scan h3 h4 h5 h6 h7]
  from c have "get_num_iter [1, 1] 1 = Inr 2" by simp
  with demo_seg_init demo_scan demo_result h7 show ?thesis by simp
qed

theorem label_weight_from_histogram_witness:
  "ScanNetSegData_init sym_ops ext_none ''data'' ''data/scannet_infos_train.pkl'' ''train'' 1 None
     demo_seg_fs = Inr demo_seg
   \<and> get_scene_idxs_and_label_weight sym_ops ext_none demo_seg demo_seg_fs
       = Inr ([0, 1], demo_weight)
   \<and> length demo_weight = 20
   \<and> demo_hist ! 4 = Fin 1 \<and> demo_hist ! 20 = Fin 1
   \<and> demo_weight ! 4 =
       AsType32 (RDivPy32 (Fin 1) (Log32 (AddPy32 (round_f64 (6 / 5))
         (Div32 (Cast32 (Fin 1)) (Sum32 (map Cast32 (butlast demo_hist)))))))"
proof -
  note c = label_weight_from_histogram[OF demo_seg_init demo_result]
  from c have "length demo_weight = 20" by (auto simp: Let_def)
  moreover have "demo_weight ! 4 =
       AsType32 (RDivPy32 (Fin 1) (Log32 (AddPy32 (round_f64 (6 / 5))
         (Div32 (Cast32 (Fin 1)) (Sum32 (map Cast32 (butlast demo_hist)))))))"
    by (simp add: demo_weight_def demo_freq_def demo_hist_def butlast_conv_take)
  moreover have "demo_hist ! 4 = Fin 1 \<and> demo_hist ! 20 = Fin 1"
    by (simp add: demo_hist_def)
  ultimately show ?thesis using demo_seg_init demo_result by simp
qed

theorem scene_idxs_sorted_witness:
  "get_scene_idxs_and_label_weight sym_ops ext_none demo_seg demo_seg_fs
       = Inr ([0, 1], demo_weight)
   \<and> int (length (data_infos demo_seg)) \<le> 2 ^ 31
   \<and> sorted [0, 1 :: int] \<and> list_all (\<lambda>v. 0 \<le> v \<and> v < 2) [0, 1 :: int]"
proof -
  have h: "int (length (data_infos demo_seg)) \<le> 2 ^ 31" by (simp add: demo_seg_def)
  from scene_idxs_sorted[OF demo_result h] demo_result h show ?thesis
    by (simp add: demo_seg_def)
qed

theorem convert_to_label_ids_witness:
  "ScanNetSegData_init sym_ops ext_none ''data'' ''data/scannet_infos_train.pkl'' ''train'' 1 None
     demo_seg_fs = Inr demo_seg
   \<and> list_all (\<lambda>v. 0 \<le> v \<and> v \<le> 40) [0, 5, 13, 40 :: int]
   \<and> convert_to_label ext_none demo_seg (MaskArr (IntVec [0, 5, 13, 40])) demo_seg_fs
       = Inr [4, 20, 20]
   \<and> list_ex (\<lambda>v. 40 < v) [0, 41 :: int]
   \<and> convert_to_label ext_none demo_seg (MaskArr (IntVec [0, 41])) demo_seg_fs = Inl IndexError"
proof -
  note a = convert_to_label_ids[OF demo_seg_init, where ids = "[0, 5, 13, 40]" and s = demo_seg_fs]
  note b = convert_to_label_ids[OF demo_seg_init, where ids = "[0, 41]" and s = demo_seg_fs]
  have "convert_to_label ext_none demo_seg (MaskArr (IntVec [0, 5, 13, 40])) demo_seg_fs
       = Inr [4, 20, 20]"
    using a by (simp add: demo_seg_def seg_cat_id_table_def)
  moreover have "convert_to_label ext_none demo_seg (MaskArr (IntVec [0, 41])) demo_seg_fs
       = Inl IndexError"
    using b by simp
  ultimately show ?thesis using demo_seg_init by simp
qed

theorem convert_to_label_ids_counterexample:
  "convert_to_label ext_none demo_seg (MaskArr (IntVec [0, 13, 41])) demo_seg_fs = Inl IndexError
   \<and> convert_to_label ext_none demo_seg (MaskArr (IntVec [0, 13, 41])) demo_seg_fs \<noteq> Inr [20, 20]
   \<and> convert_to_label ext_none demo_seg (MaskArr (IntVec [- 2])) demo_seg_fs = Inr [19]"
proof -
  have a: "convert_to_label ext_none demo_seg (MaskArr (IntVec [0, 13, 41])) demo_seg_fs
             = Inl IndexError" by code_simp
  have b: "convert_to_label ext_none demo_seg (MaskArr (IntVec [- 2])) demo_seg_fs = Inr [19]"
    by code_simp
  from a b show ?thesis by simp
qed



end
